theory Spec2Isabelle
  imports Main "HOL-Library.Sublist" "HOL-Library.List_Lexorder" "HOL-Library.Multiset"
begin

section \<open>Python strings\<close>

text \<open>
  A Python \<open>str\<close> is a sequence of Unicode code points, so a string is a list of
  code points here, and \<open>lit\<close> turns a literal into one.
\<close>

type_synonym pystr = "nat list"

abbreviation cp :: "char \<Rightarrow> nat" where
  "cp \<equiv> of_char"

definition lit :: "string \<Rightarrow> pystr" where
  "lit s = map cp s"

text \<open>\<open>s.find(c)\<close> for a one-character \<open>c\<close>: the first index, or \<open>-1\<close>.\<close>

fun str_find :: "pystr \<Rightarrow> nat \<Rightarrow> int" where
  "str_find [] c = -1"
| "str_find (x # xs) c =
     (if x = c then 0
      else (let r = str_find xs c in if r = -1 then -1 else r + 1))"

text \<open>
  \<open>s[i:j]\<close>, for a string or a list. Python counts a negative index from the end
  and clamps both to the length.
\<close>

definition py_index :: "nat \<Rightarrow> int \<Rightarrow> nat" where
  "py_index n i = (if i < 0 then nat (int n + i) else min n (nat i))"

definition py_slice :: "'a list \<Rightarrow> int \<Rightarrow> int \<Rightarrow> 'a list" where
  "py_slice s i j =
     (let a = py_index (length s) i; b = py_index (length s) j
      in take (b - a) (drop a s))"

text \<open>\<open>s.replace(a, b)\<close> for one-character \<open>a\<close> and \<open>b\<close>.\<close>

definition str_replace :: "pystr \<Rightarrow> nat \<Rightarrow> nat \<Rightarrow> pystr" where
  "str_replace s a b = map (\<lambda>c. if c = a then b else c) s"

text \<open>The code points that \<open>str.strip()\<close> removes (\<open>str.isspace\<close>).\<close>

definition is_space :: "nat \<Rightarrow> bool" where
  "is_space c \<longleftrightarrow>
     (9 \<le> c \<and> c \<le> 13) \<or> (28 \<le> c \<and> c \<le> 32) \<or> c = 133 \<or> c = 160 \<or> c = 5760
     \<or> (8192 \<le> c \<and> c \<le> 8202) \<or> c = 8232 \<or> c = 8233 \<or> c = 8239 \<or> c = 8287
     \<or> c = 12288"

definition str_strip :: "pystr \<Rightarrow> pystr" where
  "str_strip s = rev (dropWhile is_space (rev (dropWhile is_space s)))"

text \<open>\<open>sep.join(xs)\<close>.\<close>

fun str_join :: "pystr \<Rightarrow> pystr list \<Rightarrow> pystr" where
  "str_join sep [] = []"
| "str_join sep [x] = x"
| "str_join sep (x # y # ys) = x @ sep @ str_join sep (y # ys)"

text \<open>\<open>str(n)\<close> for an integer: its decimal digits, with a sign when negative.\<close>

fun str_nat :: "nat \<Rightarrow> pystr" where
  "str_nat n = (if n < 10 then [48 + n] else str_nat (n div 10) @ [48 + n mod 10])"

definition str_int :: "int \<Rightarrow> pystr" where
  "str_int i = (if i < 0 then cp CHR ''-'' # str_nat (nat (- i)) else str_nat (nat i))"

section \<open>JSON values and \<open>json.loads\<close>\<close>

text \<open>
  The values \<open>json.loads\<close> builds. A dict keeps its items in insertion order. A float
  is kept as the number text it was read from (\<open>NaN\<close>, \<open>Infinity\<close> and \<open>-Infinity\<close>
  included): binary floating point is outside this development.
\<close>

datatype json =
    JNull
  | JBool bool
  | JInt int
  | JFloat pystr
  | JStr pystr
  | JList "json list"
  | JDict "(pystr \<times> json) list"

text \<open>
  The exceptions. \<open>OutOfFuel\<close> is not one of Python's: it is what the decoder below
  answers when its bound on the number of calls is used up, which \<open>json_loads\<close> never
  does. \<open>CollaboratorError\<close> stands for any other exception of a library.
\<close>

datatype error =
    JSONDecodeError
  | OutOfFuel
  | ValueError
  | SystemExit pystr
  | FileNotFoundError
  | CollaboratorError pystr

fun is_dict :: "json \<Rightarrow> bool" where
  "is_dict (JDict _) = True"
| "is_dict _ = False"

text \<open>\<open>d[k] = v\<close> on an insertion-ordered dict, and \<open>dict(pairs)\<close>.\<close>

fun dict_set :: "(pystr \<times> json) list \<Rightarrow> pystr \<Rightarrow> json \<Rightarrow> (pystr \<times> json) list" where
  "dict_set [] k v = [(k, v)]"
| "dict_set ((k', v') # d) k v =
     (if k' = k then (k, v) # d else (k', v') # dict_set d k v)"

definition dict_of_pairs :: "(pystr \<times> json) list \<Rightarrow> (pystr \<times> json) list" where
  "dict_of_pairs ps = foldl (\<lambda>d (k, v). dict_set d k v) [] ps"

text \<open>The decoder's whitespace: space, tab, line feed, carriage return.\<close>

definition json_ws :: "nat \<Rightarrow> bool" where
  "json_ws c \<longleftrightarrow> c = 32 \<or> c = 9 \<or> c = 10 \<or> c = 13"

definition skip_ws :: "pystr \<Rightarrow> pystr" where
  "skip_ws s = dropWhile json_ws s"

definition is_digit :: "nat \<Rightarrow> bool" where
  "is_digit c \<longleftrightarrow> 48 \<le> c \<and> c \<le> 57"

definition hex_val :: "nat \<Rightarrow> nat option" where
  "hex_val c =
     (if 48 \<le> c \<and> c \<le> 57 then Some (c - 48)
      else if 97 \<le> c \<and> c \<le> 102 then Some (c - 87)
      else if 65 \<le> c \<and> c \<le> 70 then Some (c - 55)
      else None)"

text \<open>\<open>_decode_uXXXX\<close>: the value of the four hexadecimal digits after \<open>\u\<close>.\<close>

fun decode_uXXXX :: "pystr \<Rightarrow> nat option" where
  "decode_uXXXX (a # b # c # d # rest) =
     (case (hex_val a, hex_val b, hex_val c, hex_val d) of
        (Some a', Some b', Some c', Some d') \<Rightarrow>
          Some (((a' * 16 + b') * 16 + c') * 16 + d')
      | _ \<Rightarrow> None)"
| "decode_uXXXX _ = None"

text \<open>The table \<open>BACKSLASH\<close> of one-character escapes.\<close>

definition backslash :: "nat \<Rightarrow> nat option" where
  "backslash e =
     (if e = cp CHR ''\"'' then Some (cp CHR ''\"'')
      else if e = 92 then Some 92
      else if e = cp CHR ''/'' then Some (cp CHR ''/'')
      else if e = cp CHR ''b'' then Some 8
      else if e = cp CHR ''f'' then Some 12
      else if e = cp CHR ''n'' then Some 10
      else if e = cp CHR ''r'' then Some 13
      else if e = cp CHR ''t'' then Some 9
      else None)"

text \<open>
  One escape sequence of \<open>scanstring\<close>, from the character after the backslash: the
  character it denotes and how many characters of the text it takes. A high surrogate
  followed by an escaped low surrogate is one character.
\<close>

definition scan_escape :: "pystr \<Rightarrow> (nat \<times> nat) option" where
  "scan_escape cs =
     (case cs of
        [] \<Rightarrow> None
      | e # rest \<Rightarrow>
          if e \<noteq> cp CHR ''u'' then
            (case backslash e of
               None \<Rightarrow> None
             | Some ch \<Rightarrow> Some (ch, 1))
          else
            (case decode_uXXXX rest of
               None \<Rightarrow> None
             | Some uni \<Rightarrow>
                 if 55296 \<le> uni \<and> uni \<le> 56319
                    \<and> take 2 (drop 4 rest) = [92, cp CHR ''u''] then
                   (case decode_uXXXX (drop 6 rest) of
                      None \<Rightarrow> None
                    | Some uni2 \<Rightarrow>
                        if 56320 \<le> uni2 \<and> uni2 \<le> 57343
                        then Some (65536 + (uni - 55296) * 1024 + (uni2 - 56320), 11)
                        else Some (uni, 5))
                 else Some (uni, 5)))"

text \<open>
  \<open>scanstring\<close> with \<open>strict=True\<close>, from the character after the opening quote: the
  decoded string and the text after the closing quote.
\<close>

fun scanstring :: "pystr \<Rightarrow> error + (pystr \<times> pystr)" where
  "scanstring [] = Inl JSONDecodeError"
| "scanstring (c # cs) =
     (if c = cp CHR ''\"'' then Inr ([], cs)
      else if c = 92 then
        (case scan_escape cs of
           None \<Rightarrow> Inl JSONDecodeError
         | Some (ch, k) \<Rightarrow>
             (case scanstring (drop k cs) of
                Inl err \<Rightarrow> Inl err
              | Inr (str, r) \<Rightarrow> Inr (ch # str, r)))
      else if c < 32 then Inl JSONDecodeError
      else
        (case scanstring cs of
           Inl err \<Rightarrow> Inl err
         | Inr (str, r) \<Rightarrow> Inr (c # str, r)))"

text \<open>
  \<open>NUMBER_RE\<close>, \<open>(-?(?:0|[1-9]\d*))(\.\d+)?([eE][-+]?\d+)?\<close>, matched at the start of the
  text: an int when there is neither a fraction nor an exponent, a float otherwise.
\<close>

definition digits_val :: "pystr \<Rightarrow> nat" where
  "digits_val ds = foldl (\<lambda>a c. 10 * a + (c - 48)) 0 ds"

definition match_frac :: "pystr \<Rightarrow> pystr \<times> pystr" where
  "match_frac s =
     (case s of
        p # q # r \<Rightarrow>
          if p = cp CHR ''.'' \<and> is_digit q
          then (p # takeWhile is_digit (q # r), dropWhile is_digit (q # r))
          else ([], s)
      | _ \<Rightarrow> ([], s))"

definition match_exp :: "pystr \<Rightarrow> pystr \<times> pystr" where
  "match_exp s =
     (case s of
        [] \<Rightarrow> ([], s)
      | e # r \<Rightarrow>
          if e = cp CHR ''e'' \<or> e = cp CHR ''E'' then
            (let (sg, r1) =
                   (case r of
                      [] \<Rightarrow> ([], r)
                    | x # r' \<Rightarrow> if x = cp CHR ''-'' \<or> x = cp CHR ''+'' then ([x], r') else ([], r))
             in case r1 of
                  [] \<Rightarrow> ([], s)
                | d # _ \<Rightarrow>
                    if is_digit d
                    then (e # sg @ takeWhile is_digit r1, dropWhile is_digit r1)
                    else ([], s))
          else ([], s))"

definition match_number :: "pystr \<Rightarrow> (json \<times> pystr) option" where
  "match_number s =
     (let (sg, s1) =
            (case s of
               [] \<Rightarrow> ([], s)
             | c # r \<Rightarrow> if c = cp CHR ''-'' then ([c], r) else ([], s))
      in case s1 of
           [] \<Rightarrow> None
         | d # r \<Rightarrow>
             if \<not> is_digit d then None
             else
               (let (ip, s2) =
                      (if d = 48 then ([d], r)
                       else (takeWhile is_digit s1, dropWhile is_digit s1));
                    (frac, s3) = match_frac s2;
                    (ex, s4) = match_exp s3
                in if frac \<noteq> [] \<or> ex \<noteq> []
                   then Some (JFloat (sg @ ip @ frac @ ex), s4)
                   else Some (JInt (if sg = [] then int (digits_val ip)
                                    else - int (digits_val ip)), s4)))"

text \<open>\<open>string[idx:idx + n] == word\<close>, and the text after the word.\<close>

definition starts_with :: "pystr \<Rightarrow> pystr \<Rightarrow> bool" where
  "starts_with w s \<longleftrightarrow> take (length w) s = w"

text \<open>
  The branches of \<open>_scan_once\<close> that read no nested value: the three literals, a
  number, and the three float constants.
\<close>

definition scan_atom :: "pystr \<Rightarrow> error + (json \<times> pystr)" where
  "scan_atom s =
     (if starts_with (lit ''null'') s then Inr (JNull, drop 4 s)
      else if starts_with (lit ''true'') s then Inr (JBool True, drop 4 s)
      else if starts_with (lit ''false'') s then Inr (JBool False, drop 5 s)
      else
        (case match_number s of
           Some res \<Rightarrow> Inr res
         | None \<Rightarrow>
             if starts_with (lit ''NaN'') s then Inr (JFloat (lit ''NaN''), drop 3 s)
             else if starts_with (lit ''Infinity'') s
             then Inr (JFloat (lit ''Infinity''), drop 8 s)
             else if starts_with (lit ''-Infinity'') s
             then Inr (JFloat (lit ''-Infinity''), drop 9 s)
             else Inl JSONDecodeError))"

text \<open>
  \<open>scan_once\<close> with \<open>JSONObject\<close> and \<open>JSONArray\<close>. The first argument bounds the
  number of calls still allowed; \<open>json_loads\<close> gives it twice the length of the
  text, which is never used up (\<open>json_loads_fuel\<close> below). \<open>object_pairs\<close> is the \<open>while\<close> loop
  of \<open>JSONObject\<close>, entered after the opening quote of a key, and \<open>array_values\<close>
  the one of \<open>JSONArray\<close>, entered at a value.
\<close>

fun scan_once :: "nat \<Rightarrow> pystr \<Rightarrow> error + (json \<times> pystr)"
  and object_pairs :: "nat \<Rightarrow> pystr \<Rightarrow> error + ((pystr \<times> json) list \<times> pystr)"
  and array_values :: "nat \<Rightarrow> pystr \<Rightarrow> error + (json list \<times> pystr)"
where
  "scan_once n [] = Inl JSONDecodeError"
| "scan_once 0 (c # cs) = Inl OutOfFuel"
| "scan_once (Suc n) (c # cs) =
     (if c = cp CHR ''\"'' then
        (case scanstring cs of
           Inl err \<Rightarrow> Inl err
         | Inr (str, r) \<Rightarrow> Inr (JStr str, r))
      else if c = cp CHR ''{'' then
        (case skip_ws cs of
           [] \<Rightarrow> Inl JSONDecodeError
         | x # r \<Rightarrow>
             if x = cp CHR ''}'' then Inr (JDict [], r)
             else if x = cp CHR ''\"'' then
               (case object_pairs n r of
                  Inl err \<Rightarrow> Inl err
                | Inr (pairs, r') \<Rightarrow> Inr (JDict (dict_of_pairs pairs), r'))
             else Inl JSONDecodeError)
      else if c = cp CHR ''['' then
        (case skip_ws cs of
           [] \<Rightarrow> Inl JSONDecodeError
         | x # r \<Rightarrow>
             if x = cp CHR '']'' then Inr (JList [], r)
             else
               (case array_values n (x # r) of
                  Inl err \<Rightarrow> Inl err
                | Inr (vs, r') \<Rightarrow> Inr (JList vs, r')))
      else scan_atom (c # cs))"
| "object_pairs 0 s = Inl OutOfFuel"
| "object_pairs (Suc n) s =
     (case scanstring s of
        Inl err \<Rightarrow> Inl err
      | Inr (key, s1) \<Rightarrow>
          (case skip_ws s1 of
             [] \<Rightarrow> Inl JSONDecodeError
           | colon # s2 \<Rightarrow>
               if colon \<noteq> cp CHR '':'' then Inl JSONDecodeError
               else
                 (case scan_once n (skip_ws s2) of
                    Inl err \<Rightarrow> Inl err
                  | Inr (v, s3) \<Rightarrow>
                      (case skip_ws s3 of
                         [] \<Rightarrow> Inl JSONDecodeError
                       | nextchar # s4 \<Rightarrow>
                           if nextchar = cp CHR ''}'' then Inr ([(key, v)], s4)
                           else if nextchar \<noteq> cp CHR '','' then Inl JSONDecodeError
                           else
                             (case skip_ws s4 of
                                [] \<Rightarrow> Inl JSONDecodeError
                              | q # s5 \<Rightarrow>
                                  if q \<noteq> cp CHR ''\"'' then Inl JSONDecodeError
                                  else
                                    (case object_pairs n s5 of
                                       Inl err \<Rightarrow> Inl err
                                     | Inr (pairs, s6) \<Rightarrow> Inr ((key, v) # pairs, s6)))))))"
| "array_values 0 s = Inl OutOfFuel"
| "array_values (Suc n) s =
     (case scan_once n s of
        Inl err \<Rightarrow> Inl err
      | Inr (v, s1) \<Rightarrow>
          (case skip_ws s1 of
             [] \<Rightarrow> Inl JSONDecodeError
           | nextchar # s2 \<Rightarrow>
               if nextchar = cp CHR '']'' then Inr ([v], s2)
               else if nextchar \<noteq> cp CHR '','' then Inl JSONDecodeError
               else
                 (case array_values n (skip_ws s2) of
                    Inl err \<Rightarrow> Inl err
                  | Inr (vs, s3) \<Rightarrow> Inr (v # vs, s3))))"

text \<open>
  \<open>json.loads(s)\<close> for a \<open>str\<close>: a byte order mark is refused, whitespace is skipped
  on both sides of the one value, and anything after it is an error. Python also gives up,
  with a \<open>RecursionError\<close> or a \<open>ValueError\<close>, on a text nested deeper or on an
  integer longer than the interpreter allows; these limits depend on the interpreter and
  are left out, and \<open>extract_with_llm\<close> catches the two exceptions as it catches a
  \<open>JSONDecodeError\<close>.
\<close>

definition json_loads :: "pystr \<Rightarrow> error + json" where
  "json_loads s =
     (if starts_with [65279] s then Inl JSONDecodeError
      else
        (case scan_once (2 * length s) (skip_ws s) of
           Inl err \<Rightarrow> Inl err
         | Inr (obj, r) \<Rightarrow> if skip_ws r = [] then Inr obj else Inl JSONDecodeError))"

section \<open>The prompt\<close>

definition sentinel :: pystr where
  "sentinel = lit ''Information not found''"

text \<open>A text between single quotes.\<close>

definition quoted :: "pystr \<Rightarrow> pystr" where
  "quoted s = [39] @ s @ [39]"

text \<open>The dict \<open>schema\<close> of \<open>make_prompt\<close>, in the order it is written.\<close>

definition schema :: "(pystr \<times> pystr) list" where
  "schema =
     [(lit ''transaction_type'', lit ''Add | Update | Term | Information not found''),
      (lit ''transaction_attribute'', lit ''string or '' @ quoted sentinel),
      (lit ''effective_date'', lit ''MM/DD/YYYY or '' @ quoted sentinel),
      (lit ''term_date'', lit ''MM/DD/YYYY or '' @ quoted sentinel),
      (lit ''term_reason'', lit ''string or '' @ quoted sentinel),
      (lit ''provider_name'',
         lit ''string or '' @ quoted sentinel
           @ lit '' Only output the name not their designation''),
      (lit ''provider_npi'', lit ''digits or '' @ quoted sentinel),
      (lit ''provider_specialty'', lit ''string or '' @ quoted sentinel),
      (lit ''state_license'', lit ''string or '' @ quoted sentinel),
      (lit ''organization_name'', lit ''string or '' @ quoted sentinel),
      (lit ''tin'', lit ''digits or '' @ quoted sentinel @ lit ''(It is the Tax Id No.)''),
      (lit ''group_npi'',
         lit ''digits or '' @ quoted sentinel @ lit '' (It is NPI of Default Provider)''),
      (lit ''complete_address'', lit ''string or '' @ quoted sentinel),
      (lit ''phone_number'', lit ''digits or '' @ quoted sentinel),
      (lit ''fax_number'', lit ''digits or '' @ quoted sentinel),
      (lit ''ppg_id'', lit ''string (single or comma-separated) or '' @ quoted sentinel),
      (lit ''line_of_business'',
         quoted (lit ''Medicare'') @ lit '' or '' @ quoted (lit ''Commercial'') @ lit '' or ''
           @ quoted (lit ''Medical'') @ lit '' or '' @ quoted sentinel
           @ lit ''  Only these strings should be the output'')]"

text \<open>
  \<open>json.dumps\<close> of a string with the default \<open>ensure_ascii=True\<close>: the quote and the
  backslash are escaped, the usual control characters have short escapes, and every
  other character outside \<open>' '..'~'\<close> is written \<open>\uXXXX\<close>, as a surrogate pair
  above \<open>0xFFFF\<close>.
\<close>

definition hex_digit :: "nat \<Rightarrow> nat" where
  "hex_digit d = (if d < 10 then 48 + d else 87 + d)"

definition u_escape :: "nat \<Rightarrow> pystr" where
  "u_escape n =
     [92, cp CHR ''u'', hex_digit (n div 4096 mod 16), hex_digit (n div 256 mod 16),
      hex_digit (n div 16 mod 16), hex_digit (n mod 16)]"

definition encode_char :: "nat \<Rightarrow> pystr" where
  "encode_char c =
     (if c = cp CHR ''\"'' then [92, cp CHR ''\"'']
      else if c = 92 then [92, 92]
      else if c = 10 then [92, cp CHR ''n'']
      else if c = 13 then [92, cp CHR ''r'']
      else if c = 9 then [92, cp CHR ''t'']
      else if c = 12 then [92, cp CHR ''f'']
      else if c = 8 then [92, cp CHR ''b'']
      else if 32 \<le> c \<and> c \<le> 126 then [c]
      else if c < 65536 then u_escape c
      else u_escape (55296 + ((c - 65536) div 1024) mod 1024)
             @ u_escape (56320 + (c - 65536) mod 1024))"

definition encode_basestring_ascii :: "pystr \<Rightarrow> pystr" where
  "encode_basestring_ascii s = [34] @ concat (map encode_char s) @ [34]"

text \<open>\<open>json.dumps(d, indent=2)\<close> for a dict \<open>d\<close> from strings to strings.\<close>

definition json_dumps_indent2 :: "(pystr \<times> pystr) list \<Rightarrow> pystr" where
  "json_dumps_indent2 d =
     (if d = [] then lit ''{}''
      else lit ''{\<newline>''
        @ str_join (lit '',\<newline>'')
            (map (\<lambda>(k, v). lit ''  '' @ encode_basestring_ascii k @ lit '': ''
                            @ encode_basestring_ascii v) d)
        @ lit ''\<newline>}'')"

definition schema_text :: pystr where
  "schema_text = json_dumps_indent2 schema"

definition make_prompt :: "pystr \<Rightarrow> pystr" where
  "make_prompt email_text =
     lit ''\<newline>You are a STRUCTURED-EXTRACTION model. Extract values from the EMAIL below and RETURN STRICT JSON ONLY (no commentary).\<newline>''
     @ lit ''If a value cannot be found, set it exactly to \"Information not found\".\<newline>''
     @ lit ''Dates must be normalized to MM/DD/YYYY when possible.\<newline>''
     @ lit ''Return a JSON object with the following keys and value formats (exact keys must be used):\<newline>''
     @ lit ''\<newline>''
     @ schema_text
     @ lit ''\<newline>\<newline>Email:\<newline>\"\"\"'' @ email_text @ lit ''\"\"\"\<newline>''
     @ lit ''\<newline>IMPORTANT: Return only valid JSON (a single JSON object) and nothing else.\<newline>''"

text \<open>The text of the template before and after \<open>{email_text}\<close>.\<close>

definition prompt_head :: pystr where
  "prompt_head =
     lit ''\<newline>You are a STRUCTURED-EXTRACTION model. Extract values from the EMAIL below and RETURN STRICT JSON ONLY (no commentary).\<newline>''
     @ lit ''If a value cannot be found, set it exactly to \"Information not found\".\<newline>''
     @ lit ''Dates must be normalized to MM/DD/YYYY when possible.\<newline>''
     @ lit ''Return a JSON object with the following keys and value formats (exact keys must be used):\<newline>''
     @ lit ''\<newline>''
     @ schema_text
     @ lit ''\<newline>\<newline>Email:\<newline>\"\"\"''"

definition prompt_tail :: pystr where
  "prompt_tail =
     lit ''\"\"\"\<newline>''
     @ lit ''\<newline>IMPORTANT: Return only valid JSON (a single JSON object) and nothing else.\<newline>''"

section \<open>The response interpreter\<close>

text \<open>
  The text-completion collaborator: from the prompt to the generated text, or an
  exception.
\<close>

type_synonym pipe = "pystr \<Rightarrow> error + pystr"

text \<open>
  The \<open>try\<close> block of \<open>extract_with_llm\<close> on the span \<open>raw\<close>: the strict parse, kept
  when it is a dict, and on any exception one more parse after replacing single quotes,
  returned as it is.
\<close>

definition parse_raw :: "pystr \<Rightarrow> json" where
  "parse_raw raw =
     (case json_loads raw of
        Inr data \<Rightarrow> if is_dict data then data else JDict []
      | Inl _ \<Rightarrow>
          (let fixed = str_replace raw 39 34
           in case json_loads fixed of
                Inr data \<Rightarrow> data
              | Inl _ \<Rightarrow> JDict []))"

text \<open>The part of \<open>extract_with_llm\<close> after the call of the model, on its output.\<close>

definition interpret_output :: "pystr \<Rightarrow> json" where
  "interpret_output out =
     (let s = str_find out (cp CHR ''{'');
          e = str_find out (cp CHR ''}'')
      in if s = -1 \<or> e = -1 \<or> e \<le> s then JDict []
         else parse_raw (py_slice out s (e + 1)))"

definition extract_with_llm :: "pipe \<Rightarrow> pystr \<Rightarrow> error + json" where
  "extract_with_llm pipe email_text =
     (case pipe (make_prompt email_text) of
        Inl err \<Rightarrow> Inl err
      | Inr out \<Rightarrow> Inr (interpret_output out))"

section \<open>Normalization and the row\<close>

definition TEMPLATE_TO_KEY :: "(pystr \<times> pystr) list" where
  "TEMPLATE_TO_KEY =
     [(lit ''Transaction Type (Add/Update/Term)'', lit ''transaction_type''),
      (lit ''Transaction Attribute'', lit ''transaction_attribute''),
      (lit ''Effective Date'', lit ''effective_date''),
      (lit ''Term Date'', lit ''term_date''),
      (lit ''Term Reason'', lit ''term_reason''),
      (lit ''Provider Name'', lit ''provider_name''),
      (lit ''Provider NPI'', lit ''provider_npi''),
      (lit ''Provider Specialty'', lit ''provider_specialty''),
      (lit ''State License'', lit ''state_license''),
      (lit ''Organization Name'', lit ''organization_name''),
      (lit ''TIN'', lit ''tin''),
      (lit ''Group NPI'', lit ''group_npi''),
      (lit ''Complete Address'', lit ''complete_address''),
      (lit ''Phone Number'', lit ''phone_number''),
      (lit ''Fax Number'', lit ''fax_number''),
      (lit ''PPG ID'', lit ''ppg_id''),
      (lit ''Line Of Business (Medicare/Commercial/Medical)'', lit ''line_of_business'')]"

text \<open>
  \<open>str(v)\<close>. For a float, a list or a dict Python prints \<open>repr(v)\<close>, which needs
  floating point and the Unicode tables; it is the parameter \<open>rp\<close>.
\<close>

fun py_str :: "(json \<Rightarrow> pystr) \<Rightarrow> json \<Rightarrow> pystr" where
  "py_str rp JNull = lit ''None''"
| "py_str rp (JBool b) = (if b then lit ''True'' else lit ''False'')"
| "py_str rp (JInt i) = str_int i"
| "py_str rp (JStr s) = s"
| "py_str rp v = rp v"

text \<open>\<open>extracted.get(k) if isinstance(extracted, dict) else None\<close>.\<close>

definition record_get :: "json \<Rightarrow> pystr \<Rightarrow> json" where
  "record_get extracted k =
     (case extracted of
        JDict d \<Rightarrow> (case map_of d k of None \<Rightarrow> JNull | Some v \<Rightarrow> v)
      | _ \<Rightarrow> JNull)"

text \<open>\<open>isinstance(v, str) and v.strip() == ""\<close>.\<close>

fun blank_str :: "json \<Rightarrow> bool" where
  "blank_str (JStr s) = (str_strip s = [])"
| "blank_str _ = False"

text \<open>The value stored in \<open>final[k]\<close> for the value \<open>v\<close> found under \<open>k\<close>.\<close>

definition normalize_value :: "(json \<Rightarrow> pystr) \<Rightarrow> json \<Rightarrow> pystr" where
  "normalize_value rp v =
     (if v = JNull \<or> blank_str v then sentinel
      else
        (case v of
           JList xs \<Rightarrow> str_join (lit '', '') (map (py_str rp) xs)
         | _ \<Rightarrow> str_strip (py_str rp v)))"

text \<open>
  The loop that fills \<open>final\<close>, over the keys \<open>ks\<close> in the order they are visited.
  Python does not fix the order in which \<open>set(TEMPLATE_TO_KEY.values())\<close> is visited;
  \<open>normalize_record\<close> visits the keys in the order of the table, and
  \<open>fill_final_order\<close> below shows that the order does not matter.
\<close>

fun fill_final ::
  "(json \<Rightarrow> pystr) \<Rightarrow> json \<Rightarrow> pystr list \<Rightarrow> (pystr \<rightharpoonup> pystr) \<Rightarrow> (pystr \<rightharpoonup> pystr)" where
  "fill_final rp extracted [] final = final"
| "fill_final rp extracted (k # ks) final =
     fill_final rp extracted ks (final(k \<mapsto> normalize_value rp (record_get extracted k)))"

definition schema_keys :: "pystr list" where
  "schema_keys = remdups (map snd TEMPLATE_TO_KEY)"

definition normalize_record :: "(json \<Rightarrow> pystr) \<Rightarrow> json \<Rightarrow> (pystr \<rightharpoonup> pystr)" where
  "normalize_record rp extracted = fill_final rp extracted schema_keys Map.empty"

text \<open>
  A value of a cell of the template's first row: nothing, a text, or a value of another
  kind (a number, a date, a boolean).
\<close>

datatype 'o cell = CNone | CStr pystr | COther 'o

text \<open>\<open>TEMPLATE_TO_KEY.get(h, None)\<close>: only a text can be equal to a key of the table.\<close>

fun template_key :: "'o cell \<Rightarrow> pystr option" where
  "template_key (CStr h) = map_of TEMPLATE_TO_KEY h"
| "template_key _ = None"

definition keys_in_order :: "'o cell list \<Rightarrow> pystr option list" where
  "keys_in_order headers = map template_key headers"

text \<open>The loop that builds \<open>row\<close> from \<open>keys_in_order\<close> and \<open>final\<close>.\<close>

fun build_row :: "pystr option list \<Rightarrow> (pystr \<rightharpoonup> pystr) \<Rightarrow> pystr list" where
  "build_row [] final = []"
| "build_row (key # keys) final =
     (case key of
        None \<Rightarrow> sentinel
      | Some k \<Rightarrow> (case final k of None \<Rightarrow> sentinel | Some v \<Rightarrow> v))
     # build_row keys final"

section \<open>Reading an email\<close>

text \<open>A \<open>Path\<close> is the list of its parts; Python orders paths as it orders these lists.\<close>

type_synonym path = "pystr list"

text \<open>\<open>str.splitlines()\<close> and \<open>str.rstrip()\<close>.\<close>

definition is_linebreak :: "nat \<Rightarrow> bool" where
  "is_linebreak c \<longleftrightarrow>
     c = 10 \<or> c = 11 \<or> c = 12 \<or> c = 13 \<or> c = 28 \<or> c = 29 \<or> c = 30 \<or> c = 133
     \<or> c = 8232 \<or> c = 8233"

fun splitlines_from :: "pystr \<Rightarrow> pystr \<Rightarrow> pystr list" where
  "splitlines_from cur [] = (if cur = [] then [] else [cur])"
| "splitlines_from cur [c] =
     (if is_linebreak c then [cur] else [cur @ [c]])"
| "splitlines_from cur (c # d # cs) =
     (if c = 13 \<and> d = 10 then cur # splitlines_from [] cs
      else if is_linebreak c then cur # splitlines_from [] (d # cs)
      else splitlines_from (cur @ [c]) (d # cs))"

definition splitlines :: "pystr \<Rightarrow> pystr list" where
  "splitlines s = splitlines_from [] s"

definition str_rstrip :: "pystr \<Rightarrow> pystr" where
  "str_rstrip s = rev (dropWhile is_space (rev s))"

text \<open>
  \<open>load_eml_text\<close>. Opening the file and walking the parsed message are the work of
  the \<open>email\<close> and \<open>bs4\<close> libraries: \<open>read_parts\<close> gives the list \<open>parts\<close> that
  \<open>walk\<close> collects for a path, or the exception raised on the way. The rest is the
  function's own tidying.
\<close>

definition load_eml_text :: "(path \<Rightarrow> error + pystr list) \<Rightarrow> path \<Rightarrow> error + pystr" where
  "load_eml_text read_parts p =
     (case read_parts p of
        Inl err \<Rightarrow> Inl err
      | Inr parts \<Rightarrow>
          (let text = str_join [10] (filter (\<lambda>p. p \<noteq> [] \<and> str_strip p \<noteq> []) parts);
               text = str_join [10] (map str_rstrip (splitlines text))
           in Inr (str_strip text)))"

section \<open>The workbook and the batch\<close>

text \<open>
  What the program needs from its libraries and from the file system. A workbook is a
  value of the type \<open>'wb\<close>, on which \<open>openpyxl\<close> gives the values of the first row
  of the active sheet, \<open>delete_rows\<close> and \<open>append\<close>.
\<close>

record ('wb, 'o) env =
  read_parts :: "path \<Rightarrow> error + pystr list"
  py_repr :: "json \<Rightarrow> pystr"
  ws_row1 :: "'wb \<Rightarrow> 'o cell list"
  ws_delete_rows :: "'wb \<Rightarrow> int \<Rightarrow> 'wb"
  ws_append :: "'wb \<Rightarrow> pystr list \<Rightarrow> 'wb"
  is_dir :: "path \<Rightarrow> bool"
  is_file :: "path \<Rightarrow> bool"
  glob_eml :: "path \<Rightarrow> path list"
  unicode_lower :: "nat \<Rightarrow> pystr"

text \<open>The lines the program prints, without their wording.\<close>

datatype message =
    Processed path
  | Found nat
  | LoadingModel
  | ModelLoaded
  | ProcessingBatch int nat
  | Done path

text \<open>
  The state the program changes: the workbooks saved on disk and what was printed. A
  workbook is loaded as it was saved, and loading a path that holds none raises.
\<close>

record 'wb world =
  files :: "path \<rightharpoonup> 'wb"
  stdout :: "message list"

definition print :: "message \<Rightarrow> 'wb world \<Rightarrow> 'wb world" where
  "print m w = w\<lparr>stdout := stdout w @ [m]\<rparr>"

definition load_workbook :: "'wb world \<Rightarrow> path \<Rightarrow> error + 'wb" where
  "load_workbook w p = (case files w p of None \<Rightarrow> Inl FileNotFoundError | Some wb \<Rightarrow> Inr wb)"

definition save :: "'wb \<Rightarrow> path \<Rightarrow> 'wb world \<Rightarrow> 'wb world" where
  "save wb p w = w\<lparr>files := (files w)(p \<mapsto> wb)\<rparr>"

text \<open>
  \<open>append_row_to_template\<close>: the workbook is loaded from \<open>template_path\<close>, changed, and
  saved to \<open>out_path\<close>.
\<close>

definition append_row_to_template ::
  "('wb, 'o) env \<Rightarrow> path \<Rightarrow> path \<Rightarrow> pystr list \<Rightarrow> 'wb world \<Rightarrow> error + 'wb world" where
  "append_row_to_template env template_path out_path row_values w =
     (case load_workbook w template_path of
        Inl err \<Rightarrow> Inl err
      | Inr wb \<Rightarrow>
          (let ws = ws_delete_rows env wb 0;
               ws = ws_append env ws row_values
           in Inr (save ws out_path w)))"

text \<open>
  The \<open>for\<close> loop of \<open>process_eml_files\<close>. An exception leaves the loop with the state
  reached so far.
\<close>

fun process_loop ::
  "('wb, 'o) env \<Rightarrow> pipe \<Rightarrow> pystr option list \<Rightarrow> path \<Rightarrow> path \<Rightarrow> path list \<Rightarrow> 'wb world
     \<Rightarrow> 'wb world \<times> error option" where
  "process_loop env pipe keys template_path out_path [] w = (w, None)"
| "process_loop env pipe keys template_path out_path (eml_path # rest) w =
     (case load_eml_text (read_parts env) eml_path of
        Inl err \<Rightarrow> (w, Some err)
      | Inr email_text \<Rightarrow>
          (case extract_with_llm pipe email_text of
             Inl err \<Rightarrow> (w, Some err)
           | Inr extracted \<Rightarrow>
               (let final = normalize_record (py_repr env) extracted;
                    row = build_row keys final
                in case append_row_to_template env template_path out_path row w of
                     Inl err \<Rightarrow> (w, Some err)
                   | Inr w' \<Rightarrow>
                       process_loop env pipe keys template_path out_path rest
                         (print (Processed eml_path) w'))))"

definition process_eml_files ::
  "('wb, 'o) env \<Rightarrow> pipe \<Rightarrow> path list \<Rightarrow> path \<Rightarrow> path \<Rightarrow> 'wb world
     \<Rightarrow> 'wb world \<times> error option" where
  "process_eml_files env pipe eml_paths template_path out_path w =
     (case load_workbook w template_path of
        Inl err \<Rightarrow> (w, Some err)
      | Inr wb \<Rightarrow>
          (let headers = ws_row1 env wb;
               keys = keys_in_order headers;
               w = save wb out_path w
           in process_loop env pipe keys template_path out_path eml_paths w))"

section \<open>The command line\<close>

text \<open>The parsed arguments \<open>args\<close>.\<close>

record arguments =
  arg_eml_input :: path
  arg_template :: path
  arg_output :: path
  arg_verbose :: bool
  arg_batch :: int

text \<open>\<open>s.rfind(c)\<close>, \<open>Path.suffix\<close> and \<open>str.lower()\<close>.\<close>

definition str_rfind :: "pystr \<Rightarrow> nat \<Rightarrow> int" where
  "str_rfind s c =
     (let r = str_find (rev s) c in if r = -1 then -1 else int (length s) - 1 - r)"

definition path_name :: "path \<Rightarrow> pystr" where
  "path_name p = (if p = [] then [] else last p)"

definition path_suffix :: "path \<Rightarrow> pystr" where
  "path_suffix p =
     (let name = path_name p; i = str_rfind name (cp CHR ''.'')
      in if 0 < i \<and> i < int (length name) - 1 then py_slice name i (int (length name))
         else [])"

text \<open>
  An ASCII capital becomes its small letter; for a character beyond ASCII the Unicode
  tables give its lower case, the parameter \<open>ul\<close>.
\<close>

definition str_lower :: "(nat \<Rightarrow> pystr) \<Rightarrow> pystr \<Rightarrow> pystr" where
  "str_lower ul s =
     concat (map (\<lambda>c. if 65 \<le> c \<and> c \<le> 90 then [c + 32] else if c < 128 then [c] else ul c) s)"

text \<open>The block \<open>Collect .eml files\<close> of \<open>main\<close>, with the check that follows it.\<close>

definition collect_eml_paths :: "('wb, 'o) env \<Rightarrow> path \<Rightarrow> error + path list" where
  "collect_eml_paths env inp =
     (if is_dir env inp then
        (let eml_paths = sort (glob_eml env inp)
         in if eml_paths = []
            then Inl (SystemExit ([10060] @ lit '' No .eml files found in input.''))
            else Inr eml_paths)
      else if is_file env inp \<and> str_lower (unicode_lower env) (path_suffix inp) = lit ''.eml''
      then Inr [inp]
      else Inl (SystemExit
             ([10060] @ lit '' Input must be an .eml file or a folder containing .eml files.'')))"

text \<open>\<open>range(0, n, step)\<close>.\<close>

definition py_range0 :: "nat \<Rightarrow> int \<Rightarrow> error + nat list" where
  "py_range0 n step =
     (if step = 0 then Inl ValueError
      else if step < 0 then Inr []
      else Inr (map (\<lambda>j. j * nat step) [0 ..< (n + nat step - 1) div nat step]))"

text \<open>The loop \<open>Process files in batches\<close>, over the start indices of the batches.\<close>

fun run_batches ::
  "('wb, 'o) env \<Rightarrow> pipe \<Rightarrow> arguments \<Rightarrow> path list \<Rightarrow> nat list \<Rightarrow> 'wb world
     \<Rightarrow> 'wb world \<times> error option" where
  "run_batches env pipe args eml_paths [] w = (w, None)"
| "run_batches env pipe args eml_paths (i # starts) w =
     (let batch_files = py_slice eml_paths (int i) (int i + arg_batch args);
          w = (if arg_verbose args
               then print (ProcessingBatch (int i div arg_batch args + 1) (length batch_files)) w
               else w)
      in case process_eml_files env pipe batch_files (arg_template args) (arg_output args) w of
           (w', Some err) \<Rightarrow> (w', Some err)
         | (w', None) \<Rightarrow> run_batches env pipe args eml_paths starts w')"

text \<open>
  \<open>main\<close>, after the arguments are parsed. \<open>llm\<close> is what \<open>get_llm_pipe\<close> gives: the
  pipeline, or the exception raised while the model is loaded.
\<close>

definition main ::
  "('wb, 'o) env \<Rightarrow> error + pipe \<Rightarrow> arguments \<Rightarrow> 'wb world \<Rightarrow> 'wb world \<times> error option" where
  "main env llm args w =
     (case collect_eml_paths env (arg_eml_input args) of
        Inl err \<Rightarrow> (w, Some err)
      | Inr eml_paths \<Rightarrow>
          (let w = (if arg_verbose args then print (Found (length eml_paths)) w else w);
               w = print LoadingModel w
           in case llm of
                Inl err \<Rightarrow> (w, Some err)
              | Inr pipe \<Rightarrow>
                  (let w = print ModelLoaded w
                   in case py_range0 (length eml_paths) (arg_batch args) of
                        Inl err \<Rightarrow> (w, Some err)
                      | Inr starts \<Rightarrow>
                          (case run_batches env pipe args eml_paths starts w of
                             (w', Some err) \<Rightarrow> (w', Some err)
                           | (w', None) \<Rightarrow> (print (Done (arg_output args)) w', None)))))"

section \<open>A sample run\<close>

text \<open>
  The row computed for one email, or the exception raised on the way: the body of the
  loop of \<open>process_eml_files\<close> before the row is appended.
\<close>

definition email_row ::
  "('wb, 'o) env \<Rightarrow> pipe \<Rightarrow> pystr option list \<Rightarrow> path \<Rightarrow> error + pystr list" where
  "email_row env pipe keys eml_path =
     (case load_eml_text (read_parts env) eml_path of
        Inl err \<Rightarrow> Inl err
      | Inr email_text \<Rightarrow>
          (case extract_with_llm pipe email_text of
             Inl err \<Rightarrow> Inl err
           | Inr extracted \<Rightarrow>
               Inr (build_row keys (normalize_record (py_repr env) extracted))))"

text \<open>
  The sheet of \<open>openpyxl\<close>, as far as the sample needs it. A workbook is the list of the
  rows of its sheet, counted from row 0, each row the list of its texts. A sheet's own
  rows start at 1, so a sheet read from a file has nothing at row 0. A row with no cell
  and a row that is not there are the same.
\<close>

text \<open>The rows up to the last one that holds a cell: none when the sheet has no cell.\<close>

definition used_rows :: "pystr list list \<Rightarrow> pystr list list" where
  "used_rows wb = rev (dropWhile (\<lambda>r. r = []) (rev wb))"

text \<open>\<open>max_column\<close>: the largest number of a column that holds a cell, and 1 without cells.\<close>

definition sheet_max_column :: "pystr list list \<Rightarrow> nat" where
  "sheet_max_column wb = fold (\<lambda>r m. max (length r) m) wb 1"

text \<open>
  \<open>[cell.value for cell in ws[1]]\<close>: the cells of row 1 in the columns from 1 to
  \<open>max_column\<close>, with \<open>None\<close> where row 1 has no cell; one \<open>None\<close> for an empty sheet.
\<close>

definition sheet_row1 :: "pystr list list \<Rightarrow> unit cell list" where
  "sheet_row1 wb =
     (let r = (case wb of _ # r # _ \<Rightarrow> r | _ \<Rightarrow> [])
      in map CStr r @ replicate (sheet_max_column wb - length r) CNone)"

text \<open>
  \<open>ws.delete_rows(idx)\<close>: every row after \<open>idx\<close> moves up by one, onto the row before
  it. With \<open>idx = 0\<close> this moves row 1 to row 0, where no row of a sheet should be.
\<close>

definition sheet_delete_rows :: "pystr list list \<Rightarrow> int \<Rightarrow> pystr list list" where
  "sheet_delete_rows wb idx =
     (if idx < 0 then wb else take (nat idx) wb @ drop (Suc (nat idx)) wb)"

text \<open>
  \<open>ws.append(row)\<close>: the new row comes after the last row that holds a cell, and at
  row 1 when the sheet has no cell.
\<close>

definition sheet_append :: "pystr list list \<Rightarrow> pystr list \<Rightarrow> pystr list list" where
  "sheet_append wb row = (if used_rows wb = [] then [[]] else used_rows wb) @ [row]"

text \<open>
  A small environment to run the program in. The folder \<open>inbox\<close> holds \<open>a.eml\<close> with
  the text \<open>A\<close>, \<open>b.eml\<close> with the text \<open>B\<close>, and \<open>c.eml\<close>, which cannot be read
  and which the folder does not list; it lists the other two in the order b, a. The
  model \<open>sample_pipe\<close> answers with the TIN 1 for \<open>A\<close> and with the TIN 2 for everything
  else, and the model \<open>failing_pipe\<close> raises for every prompt. The template holds one
  row, its header, at row 1.
\<close>

definition inbox :: path where
  "inbox = [lit ''inbox'']"

definition a_eml :: path where
  "a_eml = [lit ''inbox'', lit ''a.eml'']"

definition b_eml :: path where
  "b_eml = [lit ''inbox'', lit ''b.eml'']"

definition c_eml :: path where
  "c_eml = [lit ''inbox'', lit ''c.eml'']"

definition template_xlsx :: path where
  "template_xlsx = [lit ''template.xlsx'']"

definition out_xlsx :: path where
  "out_xlsx = [lit ''out.xlsx'']"

definition sample_env :: "(pystr list list, unit) env" where
  "sample_env =
     \<lparr>read_parts =
        (\<lambda>p. if p = a_eml then Inr [lit ''A'']
             else if p = b_eml then Inr [lit ''B'']
             else Inl FileNotFoundError),
      py_repr = (\<lambda>v. lit ''?''),
      ws_row1 = sheet_row1,
      ws_delete_rows = sheet_delete_rows,
      ws_append = sheet_append,
      is_dir = (\<lambda>p. p = inbox),
      is_file = (\<lambda>p. p = a_eml \<or> p = b_eml \<or> p = c_eml),
      glob_eml = (\<lambda>p. if p = inbox then [b_eml, a_eml] else []),
      unicode_lower = (\<lambda>c. [c])\<rparr>"

definition sample_pipe :: pipe where
  "sample_pipe prompt =
     (if prompt = make_prompt (lit ''A'') then Inr (lit ''{\"tin\": \"1\"}'')
      else Inr (lit ''Here it is: {\"tin\": \"2\"}''))"


definition sample_header :: "pystr list" where
  "sample_header = [lit ''Provider Name'', lit ''TIN'']"

definition sample_template :: "pystr list list" where
  "sample_template = [[], sample_header]"

definition sample_world :: "pystr list list world" where
  "sample_world = \<lparr>files = [template_xlsx \<mapsto> sample_template], stdout = []\<rparr>"

text \<open>The keys of the two columns of the sample template, and the arguments of a run.\<close>

definition sample_keys :: "pystr option list" where
  "sample_keys = [Some (lit ''provider_name''), Some (lit ''tin'')]"

definition sample_args :: "int \<Rightarrow> arguments" where
  "sample_args b =
     \<lparr>arg_eml_input = inbox, arg_template = template_xlsx, arg_output = out_xlsx,
      arg_verbose = False, arg_batch = b\<rparr>"

text \<open>The paths of the lines \<open>Processed: ...\<close> among what was printed, in order.\<close>

fun processed_paths :: "message list \<Rightarrow> path list" where
  "processed_paths [] = []"
| "processed_paths (Processed p # ms) = p # processed_paths ms"
| "processed_paths (_ # ms) = processed_paths ms"

section \<open>Properties\<close>

subsection \<open>The decoder: progress, fuel, and texts that start with a brace\<close>

lemma skip_ws_length: "length (skip_ws s) \<le> length s"
  by (simp add: skip_ws_def length_dropWhile_le)

lemma skip_ws_Cons_length: "skip_ws s = x # r \<Longrightarrow> length r < length s"
  using skip_ws_length [of s] by simp

lemma scan_escape_pos: "scan_escape cs = Some (ch, k) \<Longrightarrow> 0 < k"
  by (auto simp: scan_escape_def split: list.splits if_splits option.splits)

lemma scanstring_shorter: "scanstring s = Inr (str, r) \<Longrightarrow> length r < length s"
proof (induction s arbitrary: str r rule: scanstring.induct)
  case 1
  then show ?case by simp
next
  case (2 c cs)
  show ?case
  proof (cases "c = cp CHR ''\"''")
    case True
    with "2.prems" show ?thesis by simp
  next
    case nq: False
    show ?thesis
    proof (cases "c = 92")
      case False
      with nq "2.prems" "2.IH"(2) show ?thesis
        by (auto split: if_splits sum.splits)
    next
      case bs: True
      from nq bs "2.prems" obtain ch k str' where
        e: "scan_escape cs = Some (ch, k)" and s: "scanstring (drop k cs) = Inr (str', r)"
        by (auto split: option.splits sum.splits)
      from "2.IH"(1) [OF nq bs e refl s] show ?thesis by simp
    qed
  qed
qed

lemma scanstring_fuel: "scanstring s \<noteq> Inl OutOfFuel"
proof (induction s rule: scanstring.induct)
  case 1
  then show ?case by simp
next
  case (2 c cs)
  then show ?case
    by (auto split: option.splits sum.splits)
qed


lemma match_frac_length: "match_frac s = (f, r) \<Longrightarrow> length r \<le> length s"
proof (cases s)
  case Nil
  then show "match_frac s = (f, r) \<Longrightarrow> length r \<le> length s" by (simp add: match_frac_def)
next
  case (Cons p t)
  assume m: "match_frac s = (f, r)"
  show ?thesis
  proof (cases t)
    case Nil
    with Cons m show ?thesis by (simp add: match_frac_def)
  next
    case (Cons q u)
    have "length (dropWhile is_digit (q # u)) \<le> length (q # u)"
      by (rule length_dropWhile_le)
    with Cons \<open>s = p # t\<close> m show ?thesis
      by (cases "p = cp CHR ''.'' \<and> is_digit q") (auto simp: match_frac_def)
  qed
qed

lemma dropWhile_le: "length xs \<le> n \<Longrightarrow> length (dropWhile P xs) \<le> n"
  using length_dropWhile_le [of P xs] by simp

lemma match_exp_length: "match_exp s = (f, r) \<Longrightarrow> length r \<le> length s"
  by (auto simp: match_exp_def split: list.splits if_splits intro!: dropWhile_le)

lemma match_number_shorter: "match_number s = Some (v, r) \<Longrightarrow> length r < length s"
proof -
  assume m: "match_number s = Some (v, r)"
  define s1 where "s1 = (case s of [] \<Rightarrow> s | c # t \<Rightarrow> if c = cp CHR ''-'' then t else s)"
  have s1: "length s1 \<le> length s"
    by (auto simp: s1_def split: list.splits)
  from m obtain d t where dt: "s1 = d # t" "is_digit d"
    by (auto simp: match_number_def s1_def split: list.splits if_splits)
  define s2 where "s2 = (if d = 48 then t else dropWhile is_digit s1)"
  have "dropWhile is_digit s1 = dropWhile is_digit t" using dt by simp
  then have s2: "length s2 < length s1"
    using dt length_dropWhile_le [of is_digit t] by (simp add: s2_def)
  obtain f s3 where f: "match_frac s2 = (f, s3)" by (cases "match_frac s2")
  obtain ex s4 where ex: "match_exp s3 = (ex, s4)" by (cases "match_exp s3")
  have "r = s4"
    using m dt f ex
    by (auto simp: match_number_def s1_def s2_def split: list.splits if_splits)
  with match_frac_length [OF f] match_exp_length [OF ex] s1 s2 show ?thesis by simp
qed

lemma starts_with_lit_length: "starts_with w s \<Longrightarrow> length w \<le> length s"
  by (metis starts_with_def length_take min.cobounded1 min.commute)

lemma scan_atom_shorter: "scan_atom s = Inr (v, r) \<Longrightarrow> length r < length s"
  by (auto simp: scan_atom_def lit_def split: if_splits option.splits
      dest: match_number_shorter starts_with_lit_length)

lemma scan_atom_fuel: "scan_atom s \<noteq> Inl OutOfFuel"
  by (auto simp: scan_atom_def split: if_splits option.splits)


lemma scan_shorter:
  "scan_once n s = Inr (v, r) \<Longrightarrow> length r < length s"
  "object_pairs n s = Inr (ps, r) \<Longrightarrow> length r < length s"
  "array_values n s = Inr (vs, r) \<Longrightarrow> length r < length s"
proof (induction n s and n s and n s arbitrary: v r and ps r and vs r
    rule: scan_once_object_pairs_array_values.induct)
  case (1 n)
  then show ?case by simp
next
  case (2 c cs)
  then show ?case by simp
next
  case (3 n c cs)
  show ?case
  proof (cases "c = cp CHR ''\"''")
    case True
    with "3.prems" show ?thesis
      by (auto split: sum.splits dest: scanstring_shorter)
  next
    case nq: False
    show ?thesis
    proof (cases "c = cp CHR ''{''")
      case True
      with nq "3.prems" obtain x t where xt: "skip_ws cs = x # t"
        by (auto split: list.splits)
      show ?thesis
      proof (cases "x = cp CHR ''}''")
        case True
        with nq \<open>c = cp CHR ''{''\<close> xt "3.prems" skip_ws_Cons_length [OF xt] show ?thesis
          by auto
      next
        case False
        with nq \<open>c = cp CHR ''{''\<close> xt "3.prems" obtain pairs where
          q: "x = cp CHR ''\"''" and p: "object_pairs n t = Inr (pairs, r)"
          by (auto split: if_splits sum.splits)
        from "3.IH"(1) [OF nq \<open>c = cp CHR ''{''\<close> xt False q p] skip_ws_Cons_length [OF xt]
        show ?thesis by simp
      qed
    next
      case nb: False
      show ?thesis
      proof (cases "c = cp CHR ''[''")
        case True
        with nq nb "3.prems" obtain x t where xt: "skip_ws cs = x # t"
          by (auto split: list.splits)
        show ?thesis
        proof (cases "x = cp CHR '']''")
          case True
          with nq nb \<open>c = cp CHR ''[''\<close> xt "3.prems" skip_ws_Cons_length [OF xt] show ?thesis
            by auto
        next
          case False
          with nq nb \<open>c = cp CHR ''[''\<close> xt "3.prems" obtain vs where
            p: "array_values n (x # t) = Inr (vs, r)"
            by (auto split: if_splits sum.splits)
          from "3.IH"(2) [OF nq nb \<open>c = cp CHR ''[''\<close> xt False p] skip_ws_length [of cs] xt
          show ?thesis by simp
        qed
      next
        case False
        with nq nb "3.prems" show ?thesis
          by (auto dest: scan_atom_shorter)
      qed
    qed
  qed
next
  case (4 s)
  then show ?case by simp
next
  case (5 n s)
  from "5.prems" obtain key s1 where k: "scanstring s = Inr (key, s1)"
    by (auto split: sum.splits)
  from "5.prems" k obtain colon s2 where c: "skip_ws s1 = colon # s2"
    by (auto split: list.splits)
  from "5.prems" k c have ceq: "\<not> colon \<noteq> cp CHR '':''"
    by (auto split: if_splits)
  from "5.prems" k c ceq obtain v s3 where v: "scan_once n (skip_ws s2) = Inr (v, s3)"
    by (auto split: sum.splits)
  from "5.prems" k c ceq v obtain nextchar s4 where n: "skip_ws s3 = nextchar # s4"
    by (auto split: list.splits)
  have l3: "length s3 < length s"
    using "5.IH"(1) [OF k refl c ceq v] scanstring_shorter [OF k]
      skip_ws_Cons_length [OF c] skip_ws_length [of s2]
    by simp
  show ?case
  proof (cases "nextchar = cp CHR ''}''")
    case True
    with "5.prems" k c ceq v n skip_ws_Cons_length [OF n] l3 show ?thesis by auto
  next
    case False
    with "5.prems" k c ceq v n have cm: "\<not> nextchar \<noteq> cp CHR '',''"
      by (auto split: if_splits)
    from "5.prems" k c ceq v n False cm obtain q s5 where q: "skip_ws s4 = q # s5"
      by (auto split: list.splits)
    from "5.prems" k c ceq v n False cm q have qq: "\<not> q \<noteq> cp CHR ''\"''"
      by (auto split: if_splits)
    from "5.prems" k c ceq v n False cm q qq obtain pairs where
      p: "object_pairs n s5 = Inr (pairs, r)"
      by (auto split: sum.splits)
    from "5.IH"(2) [OF k refl c ceq v refl n False cm q qq p]
      skip_ws_Cons_length [OF q] skip_ws_Cons_length [OF n] l3
    show ?thesis by simp
  qed
next
  case (6 s)
  then show ?case by simp
next
  case (7 n s)
  from "7.prems" obtain v s1 where v: "scan_once n s = Inr (v, s1)"
    by (auto split: sum.splits)
  from "7.prems" v obtain nextchar s2 where n: "skip_ws s1 = nextchar # s2"
    by (auto split: list.splits)
  have l2: "length s2 < length s"
    using "7.IH"(1) [OF v] skip_ws_Cons_length [OF n] by simp
  show ?case
  proof (cases "nextchar = cp CHR '']''")
    case True
    with "7.prems" v n l2 show ?thesis by auto
  next
    case False
    with "7.prems" v n have cm: "\<not> nextchar \<noteq> cp CHR '',''"
      by (auto split: if_splits)
    from "7.prems" v n False cm obtain vs' where
      p: "array_values n (skip_ws s2) = Inr (vs', r)"
      by (auto split: sum.splits)
    from "7.IH"(2) [OF v refl n False cm p] skip_ws_length [of s2] l2
    show ?thesis by simp
  qed
qed


lemma scan_fuel:
  "2 * length s \<le> n \<Longrightarrow> scan_once n s \<noteq> Inl OutOfFuel"
  "2 * length s + 1 \<le> n \<Longrightarrow> object_pairs n s \<noteq> Inl OutOfFuel"
  "2 * length s + 1 \<le> n \<Longrightarrow> array_values n s \<noteq> Inl OutOfFuel"
proof (induction n s and n s and n s
    rule: scan_once_object_pairs_array_values.induct)
  case (1 n)
  then show ?case by simp
next
  case (2 c cs)
  then show ?case by simp
next
  case (3 n c cs)
  show ?case
  proof (cases "c = cp CHR ''\"''")
    case True
    then show ?thesis
      using scanstring_fuel [of cs] by (auto split: sum.splits)
  next
    case nq: False
    show ?thesis
    proof (cases "c = cp CHR ''{''")
      case True
      show ?thesis
      proof (cases "skip_ws cs")
        case Nil
        with nq True show ?thesis by simp
      next
        case (Cons x t)
        show ?thesis
        proof (cases "x = cp CHR ''}''")
          case True
          with nq \<open>c = cp CHR ''{''\<close> Cons show ?thesis by simp
        next
          case nc: False
          show ?thesis
          proof (cases "x = cp CHR ''\"''")
            case False
            with nq \<open>c = cp CHR ''{''\<close> Cons nc show ?thesis by simp
          next
            case True
            have "2 * length t + 1 \<le> n"
              using "3.prems" skip_ws_Cons_length [OF Cons] by simp
            from "3.IH"(1) [OF nq \<open>c = cp CHR ''{''\<close> Cons nc True this]
            show ?thesis
              using nq \<open>c = cp CHR ''{''\<close> Cons nc True by (auto split: sum.splits)
          qed
        qed
      qed
    next
      case nb: False
      show ?thesis
      proof (cases "c = cp CHR ''[''")
        case True
        show ?thesis
        proof (cases "skip_ws cs")
          case Nil
          with nq nb True show ?thesis by simp
        next
          case (Cons x t)
          show ?thesis
          proof (cases "x = cp CHR '']''")
            case True
            with nq nb \<open>c = cp CHR ''[''\<close> Cons show ?thesis by simp
          next
            case False
            have "2 * length (x # t) + 1 \<le> n"
              using "3.prems" skip_ws_length [of cs] Cons by simp
            from "3.IH"(2) [OF nq nb \<open>c = cp CHR ''[''\<close> Cons False this]
            show ?thesis
              using nq nb \<open>c = cp CHR ''[''\<close> Cons False by (auto split: sum.splits)
          qed
        qed
      next
        case False
        with nq nb scan_atom_fuel [of "c # cs"] show ?thesis by simp
      qed
    qed
  qed
next
  case (4 s)
  then show ?case by simp
next
  case (5 n s)
  show ?case
  proof (cases "scanstring s")
    case (Inl e)
    with scanstring_fuel [of s] show ?thesis by simp
  next
    case (Inr ks)
    then obtain key s1 where k: "scanstring s = Inr (key, s1)" by (cases ks) simp
    show ?thesis
    proof (cases "skip_ws s1")
      case Nil
      with k show ?thesis by simp
    next
      case c: (Cons colon s2)
      show ?thesis
      proof (cases "colon \<noteq> cp CHR '':''")
        case True
        with k c show ?thesis by simp
      next
        case ceq: False
        have l2: "length (skip_ws s2) < length s"
          using scanstring_shorter [OF k] skip_ws_Cons_length [OF c] skip_ws_length [of s2]
          by simp
        with "5.prems" have "2 * length (skip_ws s2) \<le> n" by simp
        note ih1 = "5.IH"(1) [OF k refl c ceq this]
        show ?thesis
        proof (cases "scan_once n (skip_ws s2)")
          case (Inl e)
          with ih1 k c ceq show ?thesis by simp
        next
          case (Inr vs)
          then obtain v s3 where v: "scan_once n (skip_ws s2) = Inr (v, s3)" by (cases vs) simp
          show ?thesis
          proof (cases "skip_ws s3")
            case Nil
            with k c ceq v show ?thesis by simp
          next
            case n: (Cons nextchar s4)
            show ?thesis
            proof (cases "nextchar = cp CHR ''}''")
              case True
              with k c ceq v n show ?thesis by simp
            next
              case nc: False
              show ?thesis
              proof (cases "nextchar \<noteq> cp CHR '',''")
                case True
                with k c ceq v n nc show ?thesis by simp
              next
                case cm: False
                show ?thesis
                proof (cases "skip_ws s4")
                  case Nil
                  with k c ceq v n nc cm show ?thesis by simp
                next
                  case q: (Cons q s5)
                  show ?thesis
                  proof (cases "q \<noteq> cp CHR ''\"''")
                    case True
                    with k c ceq v n nc cm q show ?thesis by simp
                  next
                    case qq: False
                    have "length s5 < length s"
                      using scan_shorter(1) [OF v] skip_ws_Cons_length [OF n]
                        skip_ws_Cons_length [OF q] l2
                      by simp
                    with "5.prems" have "2 * length s5 + 1 \<le> n" by simp
                    from "5.IH"(2) [OF k refl c ceq v refl n nc cm q qq this]
                    show ?thesis
                      using k c ceq v n nc cm q qq by (auto split: sum.splits)
                  qed
                qed
              qed
            qed
          qed
        qed
      qed
    qed
  qed
next
  case (6 s)
  then show ?case by simp
next
  case (7 n s)
  from "7.prems" have "2 * length s \<le> n" by simp
  note ih1 = "7.IH"(1) [OF this]
  show ?case
  proof (cases "scan_once n s")
    case (Inl e)
    with ih1 show ?thesis by simp
  next
    case (Inr vs)
    then obtain v s1 where v: "scan_once n s = Inr (v, s1)" by (cases vs) simp
    show ?thesis
    proof (cases "skip_ws s1")
      case Nil
      with v show ?thesis by simp
    next
      case n: (Cons nextchar s2)
      show ?thesis
      proof (cases "nextchar = cp CHR '']''")
        case True
        with v n show ?thesis by simp
      next
        case nc: False
        show ?thesis
        proof (cases "nextchar \<noteq> cp CHR '',''")
          case True
          with v n nc show ?thesis by simp
        next
          case cm: False
          have "length (skip_ws s2) < length s"
            using scan_shorter(1) [OF v] skip_ws_Cons_length [OF n] skip_ws_length [of s2]
            by simp
          with "7.prems" have "2 * length (skip_ws s2) + 1 \<le> n" by simp
          from "7.IH"(2) [OF v refl n nc cm this]
          show ?thesis
            using v n nc cm by (auto split: sum.splits)
        qed
      qed
    qed
  qed
qed

lemma json_loads_fuel: "json_loads s \<noteq> Inl OutOfFuel"
proof -
  have "2 * length (skip_ws s) \<le> 2 * length s"
    using skip_ws_length [of s] by simp
  from scan_fuel(1) [OF this] show ?thesis
    by (auto simp: json_loads_def split: sum.splits)
qed


lemma str_find_ge: "- 1 \<le> str_find s c"
  by (induction s) (auto simp: Let_def)

lemma str_find_none: "str_find s c = - 1 \<longleftrightarrow> c \<notin> set s"
proof (induction s)
  case Nil
  then show ?case by simp
next
  case (Cons x xs)
  then show ?case
    using str_find_ge [of xs c] by (auto simp: Let_def)
qed

lemma str_find_first: "c \<notin> set pre \<Longrightarrow> str_find (pre @ c # post) c = int (length pre)"
proof (induction pre)
  case Nil
  then show ?case by simp
next
  case (Cons x xs)
  then show ?case by (auto simp: Let_def)
qed

lemma str_find_split:
  assumes "str_find s c \<noteq> - 1"
  obtains pre post where "s = pre @ c # post" "c \<notin> set pre" "str_find s c = int (length pre)"
proof -
  from assms have "c \<in> set s" by (simp add: str_find_none)
  then obtain pre post where s: "s = pre @ c # post" "c \<notin> set pre"
    by (auto dest: split_list_first)
  with str_find_first [of c pre post] that show thesis by simp
qed

lemma py_slice_span:
  "py_slice (pre @ x # mid @ y # post) (int (length pre)) (int (length pre + length mid + 1) + 1)
     = x # mid @ [y]"
proof -
  have "nat (2 + (int (length pre) + int (length mid))) - length pre = Suc (Suc (length mid))"
    by arith
  then show ?thesis
    by (simp add: py_slice_def py_index_def Let_def)
qed

lemma scan_once_brace:
  "scan_once n (cp CHR ''{'' # t) = Inr (v, r) \<Longrightarrow> is_dict v"
  by (cases n) (auto split: list.splits if_splits sum.splits prod.splits)

lemma json_loads_brace:
  assumes "json_loads (cp CHR ''{'' # t) = Inr v"
  shows "is_dict v"
proof -
  have sk: "skip_ws (cp CHR ''{'' # t) = cp CHR ''{'' # t"
    by (simp add: skip_ws_def json_ws_def)
  from assms obtain r where
    "scan_once (2 * length (cp CHR ''{'' # t)) (cp CHR ''{'' # t) = Inr (v, r)"
    unfolding json_loads_def sk
    by (auto split: if_splits sum.splits simp del: scan_once.simps)
  then show ?thesis by (rule scan_once_brace)
qed

lemma parse_raw_brace: "is_dict (parse_raw (cp CHR ''{'' # t))"
proof -
  have r: "str_replace (cp CHR ''{'' # t) 39 34 = cp CHR ''{'' # str_replace t 39 34"
    by (simp add: str_replace_def)
  show ?thesis
    unfolding parse_raw_def Let_def r
    using json_loads_brace [of "str_replace t 39 34"]
    by (auto split: sum.splits)
qed

lemma interpret_output_span:
  assumes "cp CHR ''{'' \<notin> set pre" "cp CHR ''}'' \<notin> set pre" "cp CHR ''}'' \<notin> set mid"
  shows "interpret_output (pre @ cp CHR ''{'' # mid @ cp CHR ''}'' # post)
           = parse_raw (cp CHR ''{'' # mid @ [cp CHR ''}''])"
proof -
  let ?out = "pre @ cp CHR ''{'' # mid @ cp CHR ''}'' # post"
  have s: "str_find ?out (cp CHR ''{'') = int (length pre)"
    using assms(1) by (rule str_find_first)
  have "cp CHR ''}'' \<notin> set (pre @ cp CHR ''{'' # mid)"
    using assms(2,3) by simp
  from str_find_first [OF this, of post]
  have e: "str_find ?out (cp CHR ''}'') = int (length pre + length mid + 1)"
    by simp
  show ?thesis
    unfolding interpret_output_def s e Let_def
    using py_slice_span [of pre "cp CHR ''{''" mid "cp CHR ''}''" post]
    by simp
qed

lemma interpret_output_cases:
  obtains "interpret_output out = JDict []"
  | pre mid post where "out = pre @ cp CHR ''{'' # mid @ cp CHR ''}'' # post"
      "cp CHR ''{'' \<notin> set pre" "cp CHR ''}'' \<notin> set pre" "cp CHR ''}'' \<notin> set mid"
proof (cases "str_find out (cp CHR ''{'') = - 1 \<or> str_find out (cp CHR ''}'') = - 1
    \<or> str_find out (cp CHR ''}'') \<le> str_find out (cp CHR ''{'')")
  case True
  then have "interpret_output out = JDict []"
    by (auto simp: interpret_output_def Let_def)
  then show thesis by (rule that(1))
next
  case False
  then have s: "str_find out (cp CHR ''{'') \<noteq> - 1" and e: "str_find out (cp CHR ''}'') \<noteq> - 1"
    and lt: "str_find out (cp CHR ''{'') < str_find out (cp CHR ''}'')"
    by auto
  from s obtain pre rest where o1: "out = pre @ cp CHR ''{'' # rest" "cp CHR ''{'' \<notin> set pre"
    "str_find out (cp CHR ''{'') = int (length pre)"
    by (rule str_find_split)
  from e obtain pre' post where o2: "out = pre' @ cp CHR ''}'' # post" "cp CHR ''}'' \<notin> set pre'"
    "str_find out (cp CHR ''}'') = int (length pre')"
    by (rule str_find_split)
  from lt o1(3) o2(3) have l: "length pre < length pre'" by simp
  from o1(1) o2(1) have eq: "pre @ cp CHR ''{'' # rest = pre' @ cp CHR ''}'' # post" by simp
  from l have "take (length pre) pre' = pre"
    using arg_cong [OF eq, of "take (length pre)"] by simp
  then obtain m where m: "pre' = pre @ m" "m \<noteq> []"
    using l by (metis append_take_drop_id append_Nil2 less_irrefl)
  with eq have "cp CHR ''{'' # rest = m @ cp CHR ''}'' # post" by simp
  with m(2) obtain mid where mid: "m = cp CHR ''{'' # mid" "rest = mid @ cp CHR ''}'' # post"
    by (cases m) auto
  from o2(2) m(1) mid(1) have "cp CHR ''}'' \<notin> set pre" "cp CHR ''}'' \<notin> set mid" by auto
  with o1 mid(2) show thesis by (intro that(2) [of pre mid post]) auto
qed

subsection \<open>The interpreter returns a mapping\<close>

lemma is_dict_JDict: "is_dict v \<Longrightarrow> \<exists>d. v = JDict d"
  by (cases v) simp_all

text \<open>
  C3. The response interpreter raises nothing and returns a mapping for every output
  text of the model: an empty dict when there is no span, and otherwise what
  \<open>parse_raw\<close> gives for a span that starts with an opening brace, which is a dict
  also when it comes from the second parse, after the single quotes are replaced and
  with no check of the type, since the decoder reads a text that starts with a brace
  as an object or fails.
\<close>

theorem interpret_output_returns_mapping: "\<exists>d. interpret_output out = JDict d"
proof (rule interpret_output_cases [of out])
  assume "interpret_output out = JDict []"
  then show ?thesis by blast
next
  fix pre mid post
  assume out: "out = pre @ cp CHR ''{'' # mid @ cp CHR ''}'' # post"
    and pre: "cp CHR ''{'' \<notin> set pre" "cp CHR ''}'' \<notin> set pre"
    and mid: "cp CHR ''}'' \<notin> set mid"
  have "interpret_output out = parse_raw (cp CHR ''{'' # mid @ [cp CHR ''}''])"
    unfolding out using pre mid by (rule interpret_output_span)
  moreover have "is_dict (parse_raw (cp CHR ''{'' # mid @ [cp CHR ''}'']))"
    by (rule parse_raw_brace)
  ultimately have "is_dict (interpret_output out)" by simp
  then show ?thesis by (rule is_dict_JDict)
qed

subsection \<open>The span the interpreter parses\<close>

text \<open>Evaluating the decoder on a given text: the fuel is a numeral there.\<close>

lemma scan_once_numeral:
  "scan_once (numeral k) (c # cs) = scan_once (Suc (pred_numeral k)) (c # cs)"
  "object_pairs (numeral k) s = object_pairs (Suc (pred_numeral k)) s"
  "array_values (numeral k) s = array_values (Suc (pred_numeral k)) s"
  by (simp_all only: numeral_eq_Suc)

lemmas scan_eval =
  scan_once.simps(3) [of "pred_numeral k" for k, folded scan_once_numeral(1)]
  object_pairs.simps(2) [of "pred_numeral k" for k, folded scan_once_numeral(2)]
  array_values.simps(2) [of "pred_numeral k" for k, folded scan_once_numeral(3)]

lemmas eval_json =
  lit_def quoted_def interpret_output_def Let_def py_slice_def py_index_def parse_raw_def
  json_loads_def starts_with_def skip_ws_def json_ws_def str_replace_def scan_atom_def
  match_number_def match_frac_def match_exp_def is_digit_def digits_val_def dict_of_pairs_def
  scan_escape_def backslash_def scan_eval

lemma str_find_append:
  "c \<notin> set pre \<Longrightarrow>
     str_find (pre @ xs) c = (if str_find xs c = - 1 then - 1 else int (length pre) + str_find xs c)"
  using str_find_ge [of xs c] by (induction pre) (auto simp: Let_def)

lemma interpret_output_no_brace:
  assumes "cp CHR ''{'' \<notin> set out \<or> cp CHR ''}'' \<notin> set out"
  shows "interpret_output out = JDict []"
  using assms by (auto simp: interpret_output_def Let_def str_find_none)

lemma interpret_output_close_first:
  assumes "cp CHR ''{'' \<notin> set pre" "cp CHR ''}'' \<notin> set pre"
  shows "interpret_output (pre @ cp CHR ''}'' # post) = JDict []"
proof -
  let ?out = "pre @ cp CHR ''}'' # post"
  have e: "str_find ?out (cp CHR ''}'') = int (length pre)"
    using assms(2) by (rule str_find_first)
  have "str_find ?out (cp CHR ''{'') = - 1 \<or> int (length pre) \<le> str_find ?out (cp CHR ''{'')"
    using str_find_append [OF assms(1), of "cp CHR ''}'' # post"]
      str_find_ge [of "cp CHR ''}'' # post" "cp CHR ''{''"]
    by (auto split: if_splits)
  with e show ?thesis
    by (auto simp: interpret_output_def Let_def)
qed

lemma ex_no_json: "interpret_output (lit ''no json here'') = JDict []"
  by (simp add: eval_json)

lemma ex_empty: "interpret_output [] = JDict []"
  by (simp add: eval_json)

lemma ex_single_quotes_strict:
  "json_loads (lit ''{'' @ quoted (lit ''a'') @ lit '': 1}'') = Inl JSONDecodeError"
  by (simp add: eval_json)

lemma ex_single_quotes:
  "interpret_output (lit ''{'' @ quoted (lit ''a'') @ lit '': 1}'') = JDict [(lit ''a'', JInt 1)]"
  by (simp add: eval_json)

lemma ex_two_objects:
  "interpret_output (lit ''{\"a\": 1} {\"b\": 2}'') = JDict [(lit ''a'', JInt 1)]"
  by (simp add: eval_json)

text \<open>
  C4. For every output text of the model: with no opening brace or no closing brace,
  or with the first closing brace before the first opening brace, the interpreter
  returns the empty record; otherwise it parses the text from the first opening brace
  to the first closing brace, both included, and nothing else. So \<open>no json here\<close>
  and the empty text give the empty record, two objects in a row give the first one only,
  and the object \<open>{'a': 1}\<close>, which the strict parse refuses, is read as
  \<open>{"a": 1}\<close> after the single quotes are replaced.
\<close>

theorem interpret_output_span_rule:
  "(cp CHR ''{'' \<notin> set out \<or> cp CHR ''}'' \<notin> set out \<longrightarrow> interpret_output out = JDict [])
   \<and> (cp CHR ''{'' \<notin> set pre \<and> cp CHR ''}'' \<notin> set pre
        \<longrightarrow> interpret_output (pre @ cp CHR ''}'' # post) = JDict [])
   \<and> (cp CHR ''{'' \<notin> set pre \<and> cp CHR ''}'' \<notin> set pre \<and> cp CHR ''}'' \<notin> set mid
        \<longrightarrow> interpret_output (pre @ cp CHR ''{'' # mid @ cp CHR ''}'' # post)
              = parse_raw (cp CHR ''{'' # mid @ [cp CHR ''}'']))
   \<and> interpret_output (lit ''no json here'') = JDict []
   \<and> interpret_output [] = JDict []
   \<and> json_loads (lit ''{'' @ quoted (lit ''a'') @ lit '': 1}'') = Inl JSONDecodeError
   \<and> interpret_output (lit ''{'' @ quoted (lit ''a'') @ lit '': 1}'') = JDict [(lit ''a'', JInt 1)]
   \<and> interpret_output (lit ''{\"a\": 1} {\"b\": 2}'') = JDict [(lit ''a'', JInt 1)]"
  using interpret_output_no_brace [of out] interpret_output_close_first [of pre post]
    interpret_output_span [of pre mid post]
    ex_no_json ex_empty ex_single_quotes_strict ex_single_quotes ex_two_objects
  by blast

theorem interpret_output_span_rule_witness:
  "cp CHR ''}'' \<notin> set (lit ''abc {'')
   \<and> interpret_output (lit ''abc {'') = JDict []
   \<and> cp CHR ''{'' \<notin> set (lit ''Sure: '') \<and> cp CHR ''}'' \<notin> set (lit ''Sure: '')
   \<and> interpret_output (lit ''Sure: '' @ cp CHR ''}'' # lit '' {\"b\": 2}'') = JDict []
   \<and> cp CHR ''}'' \<notin> set (lit ''\"a\": 1'')
   \<and> interpret_output (lit ''Sure: '' @ cp CHR ''{'' # lit ''\"a\": 1'' @ cp CHR ''}'' # lit '' {\"b\": 2}'')
       = parse_raw (cp CHR ''{'' # lit ''\"a\": 1'' @ [cp CHR ''}''])"
proof -
  have h: "cp CHR ''}'' \<notin> set (lit ''abc {'')"
    "cp CHR ''{'' \<notin> set (lit ''Sure: '')" "cp CHR ''}'' \<notin> set (lit ''Sure: '')"
    "cp CHR ''}'' \<notin> set (lit ''\"a\": 1'')"
    by (simp_all add: lit_def)
  show ?thesis
    using h interpret_output_span_rule
      [where out = "lit ''abc {''" and pre = "lit ''Sure: ''" and mid = "lit ''\"a\": 1''"
         and post = "lit '' {\"b\": 2}''"]
    by blast
qed

subsection \<open>Normalization and the row\<close>

lemma fill_final_apply:
  "fill_final rp extracted ks final k =
     (if k \<in> set ks then Some (normalize_value rp (record_get extracted k)) else final k)"
  by (induction ks arbitrary: final) auto

lemma fill_final_order:
  "set ks = set ks' \<Longrightarrow> fill_final rp extracted ks final = fill_final rp extracted ks' final"
  by (rule ext) (simp add: fill_final_apply)

lemma normalize_record_apply:
  "normalize_record rp extracted k =
     (if k \<in> set schema_keys then Some (normalize_value rp (record_get extracted k)) else None)"
  by (simp add: normalize_record_def fill_final_apply)

lemma schema_keys_eq: "map fst schema = map snd TEMPLATE_TO_KEY"
  by (simp add: schema_def TEMPLATE_TO_KEY_def)

lemma distinct_template_keys: "distinct (map snd TEMPLATE_TO_KEY)"
  by (simp add: TEMPLATE_TO_KEY_def lit_def)

lemma schema_keys_list: "schema_keys = map snd TEMPLATE_TO_KEY"
  using distinct_template_keys by (simp add: schema_keys_def)

lemma length_schema_keys: "length schema_keys = 17"
  by (simp add: schema_keys_list) (simp add: TEMPLATE_TO_KEY_def)

text \<open>
  C5. For every candidate record, also one that is not a dict, the keys of the
  normalized record are the 17 field names of the schema of the prompt, which are the
  values of \<open>TEMPLATE_TO_KEY\<close>: none is missing, and no other key of the candidate
  record is kept.
\<close>

theorem normalize_record_keys:
  "dom (normalize_record rp extracted) = set (map fst schema)
   \<and> dom (normalize_record rp extracted) = set (map snd TEMPLATE_TO_KEY)
   \<and> card (dom (normalize_record rp extracted)) = 17"
proof -
  have d: "dom (normalize_record rp extracted) = set schema_keys"
    by (auto simp: normalize_record_apply dom_def)
  have "card (set schema_keys) = length schema_keys"
    unfolding schema_keys_list by (rule distinct_card [OF distinct_template_keys])
  then have c: "card (set schema_keys) = 17"
    by (simp only: length_schema_keys)
  show ?thesis
    using d c by (simp add: schema_keys_list schema_keys_eq)
qed

lemma str_strip_sentinel: "str_strip sentinel = sentinel"
  by (simp add: str_strip_def sentinel_def lit_def is_space_def)

lemma sentinel_nonempty: "sentinel \<noteq> []"
  by (simp add: sentinel_def lit_def)

lemma normalize_value_sentinel: "normalize_value rp (JStr sentinel) = sentinel"
  by (simp add: normalize_value_def str_strip_sentinel sentinel_nonempty)

lemma normalize_value_empty_list: "normalize_value rp (JList []) = []"
  by (simp add: normalize_value_def)

lemma tin_key: "lit ''tin'' \<in> set schema_keys"
  by (simp add: schema_keys_list) (simp add: TEMPLATE_TO_KEY_def lit_def)

lemma normalize_value_absent: "normalize_value rp JNull = sentinel"
  by (simp add: normalize_value_def)

lemma normalize_value_blank: "str_strip s = [] \<Longrightarrow> normalize_value rp (JStr s) = sentinel"
  by (simp add: normalize_value_def)

lemma normalize_value_text:
  "str_strip s \<noteq> [] \<Longrightarrow> normalize_value rp (JStr s) = str_strip s"
  by (simp add: normalize_value_def)

text \<open>
  C2. The claim is that no value of the normalized record is empty. The model's output
  \<open>{"tin": []}\<close> is read as a dict whose \<open>tin\<close> is the empty list, and the list branch
  of the normalization joins its elements without the test for emptiness that the string
  branch has: \<open>final["tin"]\<close> is the empty string, not the sentinel.
\<close>

theorem normalize_record_empty_list:
  "interpret_output (lit ''{\"tin\": []}'') = JDict [(lit ''tin'', JList [])]
   \<and> normalize_record rp (JDict [(lit ''tin'', JList [])]) (lit ''tin'') = Some []"
proof -
  have "interpret_output (lit ''{\"tin\": []}'') = JDict [(lit ''tin'', JList [])]"
    by (simp add: eval_json)
  moreover have "record_get (JDict [(lit ''tin'', JList [])]) (lit ''tin'') = JList []"
    by (simp add: record_get_def)
  ultimately show ?thesis
    using tin_key by (simp add: normalize_record_apply normalize_value_empty_list)
qed

lemma map_of_keys:
  "map_of (map (\<lambda>k. (k, f k)) ks) k = (if k \<in> set ks then Some (f k) else None)"
  by (induction ks) auto

text \<open>
  C8. A record that holds the sentinel under each of the schema's keys, and no other
  key, is normalized to itself: the normalized record, its values read as JSON strings,
  is the same mapping.
\<close>

theorem normalize_sentinel_fixpoint:
  assumes "map_of d = (\<lambda>k. if k \<in> set schema_keys then Some (JStr sentinel) else None)"
  shows "map_option JStr \<circ> normalize_record rp (JDict d) = map_of d"
proof (rule ext)
  fix k
  show "(map_option JStr \<circ> normalize_record rp (JDict d)) k = map_of d k"
    using assms
    by (simp add: normalize_record_apply record_get_def normalize_value_sentinel)
qed

theorem normalize_sentinel_fixpoint_witness:
  "map_of (map (\<lambda>k. (k, JStr sentinel)) schema_keys)
     = (\<lambda>k. if k \<in> set schema_keys then Some (JStr sentinel) else None)
   \<and> map_option JStr \<circ> normalize_record (\<lambda>v. []) (JDict (map (\<lambda>k. (k, JStr sentinel)) schema_keys))
     = map_of (map (\<lambda>k. (k, JStr sentinel)) schema_keys)"
proof -
  have h: "map_of (map (\<lambda>k. (k, JStr sentinel)) schema_keys)
     = (\<lambda>k. if k \<in> set schema_keys then Some (JStr sentinel) else None)"
    by (rule ext) (simp add: map_of_keys)
  from h normalize_sentinel_fixpoint [OF h, of "\<lambda>v. []"] show ?thesis by simp
qed

lemma build_row_map:
  "build_row keys final =
     map (\<lambda>key. case key of None \<Rightarrow> sentinel
                 | Some k \<Rightarrow> (case final k of None \<Rightarrow> sentinel | Some v \<Rightarrow> v)) keys"
  by (induction keys) auto

lemma template_key_examples:
  "template_key (CStr (lit ''Provider Name'')) = Some (lit ''provider_name'')"
  "template_key (CStr (lit ''Unknown Col'')) = None"
  "template_key (CStr (lit ''TIN'')) = Some (lit ''tin'')"
  by (simp_all add: TEMPLATE_TO_KEY_def lit_def)

lemma row_example:
  "build_row
     (keys_in_order [CStr (lit ''Provider Name''), CStr (lit ''Unknown Col''), CStr (lit ''TIN'')])
     (final(lit ''provider_name'' \<mapsto> lit ''Jane Doe'', lit ''tin'' \<mapsto> lit ''123456789''))
   = [lit ''Jane Doe'', sentinel, lit ''123456789'']"
  unfolding keys_in_order_def list.map template_key_examples
  by (simp add: lit_def)

text \<open>
  C6. For every normalized record and every sequence of header cells, the row has one
  cell for each header, in the order of the headers: the value of the field the header
  is mapped to, and the sentinel for a header that \<open>TEMPLATE_TO_KEY\<close> does not know,
  for an empty cell and for a cell that is not a text. For the headers \<open>Provider Name\<close>,
  \<open>Unknown Col\<close>, \<open>TIN\<close> and a record with \<open>provider_name = Jane Doe\<close> and
  \<open>tin = 123456789\<close> the row is \<open>Jane Doe\<close>, the sentinel, \<open>123456789\<close>.
\<close>

theorem build_row_aligned:
  "length (build_row (keys_in_order headers) final) = length headers
   \<and> build_row (keys_in_order headers) final
       = map (\<lambda>h. case template_key h of
                     None \<Rightarrow> sentinel
                   | Some k \<Rightarrow> (case final k of None \<Rightarrow> sentinel | Some v \<Rightarrow> v)) headers
   \<and> build_row (keys_in_order [CNone, COther x]) final = [sentinel, sentinel]
   \<and> build_row
        (keys_in_order [CStr (lit ''Provider Name''), CStr (lit ''Unknown Col''), CStr (lit ''TIN'')])
        (final(lit ''provider_name'' \<mapsto> lit ''Jane Doe'', lit ''tin'' \<mapsto> lit ''123456789''))
      = [lit ''Jane Doe'', sentinel, lit ''123456789'']"
proof -
  have "build_row (keys_in_order [CNone, COther x]) final = [sentinel, sentinel]"
    by (simp add: keys_in_order_def)
  moreover have "build_row (keys_in_order headers) final
       = map (\<lambda>h. case template_key h of
                     None \<Rightarrow> sentinel
                   | Some k \<Rightarrow> (case final k of None \<Rightarrow> sentinel | Some v \<Rightarrow> v)) headers"
    by (simp add: build_row_map keys_in_order_def comp_def)
  moreover from this have "length (build_row (keys_in_order headers) final) = length headers"
    by simp
  ultimately show ?thesis
    using row_example [of final] by blast
qed

subsection \<open>The prompt\<close>

lemma make_prompt_split: "make_prompt email_text = prompt_head @ email_text @ prompt_tail"
  by (simp add: make_prompt_def prompt_head_def prompt_tail_def)

lemma make_prompt_inj: "make_prompt a = make_prompt b \<longleftrightarrow> a = b"
  by (simp add: make_prompt_split)





lemma schema_text_start:
  "prefix (lit ''{\<newline>  \"transaction_type\": \"Add | Update | Term | Information not found\",\<newline>  \"transaction_attribute\": \"string or '' @ quoted sentinel @ lit ''\",\<newline>'') schema_text"
  by (simp add: schema_text_def json_dumps_indent2_def schema_def encode_basestring_ascii_def
      encode_char_def lit_def sentinel_def quoted_def)


subsection \<open>The loop over the emails\<close>

lemma process_loop_Cons:
  "process_loop env pipe keys t out (p # rest) w =
     (case email_row env pipe keys p of
        Inl err \<Rightarrow> (w, Some err)
      | Inr row \<Rightarrow>
          (case append_row_to_template env t out row w of
             Inl err \<Rightarrow> (w, Some err)
           | Inr w' \<Rightarrow> process_loop env pipe keys t out rest (print (Processed p) w')))"
  by (simp add: email_row_def Let_def split: sum.splits)

lemma process_loop_append:
  "process_loop env pipe keys t out (xs @ ys) w =
     (case process_loop env pipe keys t out xs w of
        (w1, None) \<Rightarrow> process_loop env pipe keys t out ys w1
      | (w1, Some err) \<Rightarrow> (w1, Some err))"
proof (induction xs arbitrary: w)
  case Nil
  then show ?case by simp
next
  case (Cons p xs)
  show ?case
    unfolding append_Cons process_loop_Cons
    by (simp add: Cons.IH split: sum.splits)
qed

lemma append_row_files:
  "append_row_to_template env t out row w = Inr w' \<Longrightarrow>
     \<exists>wb. files w t = Some wb
       \<and> files w' = (files w)(out \<mapsto> ws_append env (ws_delete_rows env wb 0) row)
       \<and> stdout w' = stdout w"
  by (auto simp: append_row_to_template_def load_workbook_def save_def Let_def
      split: option.splits)

lemma process_loop_files_other:
  "x \<noteq> out \<Longrightarrow> files (fst (process_loop env pipe keys t out ps w)) x = files w x"
proof (induction ps arbitrary: w)
  case Nil
  then show ?case by simp
next
  case (Cons p ps)
  show ?case
  proof (cases "email_row env pipe keys p")
    case (Inl e)
    then show ?thesis by (simp add: process_loop_Cons del: process_loop.simps(2))
  next
    case (Inr row)
    show ?thesis
    proof (cases "append_row_to_template env t out row w")
      case (Inl e)
      with Inr show ?thesis by (simp add: process_loop_Cons del: process_loop.simps(2))
    next
      case r: (Inr w')
      from append_row_files [OF r] Cons.prems have "files w' x = files w x" by auto
      with Inr r Cons.IH [OF Cons.prems, of "print (Processed p) w'"] show ?thesis
        by (simp add: process_loop_Cons print_def del: process_loop.simps(2))
    qed
  qed
qed

lemma process_loop_last_row:
  assumes "t \<noteq> out" and "process_loop env pipe keys t out (ps @ [p]) w = (w', None)"
  shows "\<exists>wb row. files w t = Some wb \<and> email_row env pipe keys p = Inr row
           \<and> files w' out = Some (ws_append env (ws_delete_rows env wb 0) row)"
proof -
  obtain w1 r1 where l1: "process_loop env pipe keys t out ps w = (w1, r1)"
    by (cases "process_loop env pipe keys t out ps w")
  with assms(2) have r1: "r1 = None" and l2: "process_loop env pipe keys t out [p] w1 = (w', None)"
    by (auto simp: process_loop_append split: option.splits simp del: process_loop.simps(2))
  have "files (fst (process_loop env pipe keys t out ps w)) t = files w t"
    by (rule process_loop_files_other [OF assms(1)])
  with l1 have t1: "files w1 t = files w t" by simp
  from l2 obtain row w2 where row: "email_row env pipe keys p = Inr row"
    and ap: "append_row_to_template env t out row w1 = Inr w2"
    and w': "w' = print (Processed p) w2"
    by (auto simp: process_loop_Cons split: sum.splits simp del: process_loop.simps(2))
  from append_row_files [OF ap] t1 w' row show ?thesis
    by (auto simp: print_def)
qed


lemma process_loop_stdout:
  "process_loop env pipe keys t out ps w = (w', None) \<Longrightarrow>
     stdout w' = stdout w @ map Processed ps"
proof (induction ps arbitrary: w)
  case Nil
  then show ?case by simp
next
  case (Cons p ps)
  from Cons.prems obtain row w2 where row: "email_row env pipe keys p = Inr row"
    and ap: "append_row_to_template env t out row w = Inr w2"
    and rest: "process_loop env pipe keys t out ps (print (Processed p) w2) = (w', None)"
    by (auto simp: process_loop_Cons split: sum.splits simp del: process_loop.simps(2))
  from Cons.IH [OF rest] append_row_files [OF ap] show ?case
    by (auto simp: print_def)
qed

subsection \<open>The sample run, step by step\<close>

lemma sample_paths_distinct:
  "a_eml \<noteq> b_eml" "a_eml \<noteq> c_eml" "b_eml \<noteq> c_eml" "b_eml \<noteq> a_eml" "c_eml \<noteq> a_eml"
  "c_eml \<noteq> b_eml" "template_xlsx \<noteq> out_xlsx" "out_xlsx \<noteq> template_xlsx"
  "a_eml \<noteq> inbox" "b_eml \<noteq> inbox" "c_eml \<noteq> inbox"
  by (simp_all add: a_eml_def b_eml_def c_eml_def template_xlsx_def out_xlsx_def inbox_def lit_def)

lemma sample_load:
  "load_eml_text (read_parts sample_env) a_eml = Inr (lit ''A'')"
  "load_eml_text (read_parts sample_env) b_eml = Inr (lit ''B'')"
  "load_eml_text (read_parts sample_env) c_eml = Inl FileNotFoundError"
  by (simp_all add: load_eml_text_def sample_env_def sample_paths_distinct Let_def)
     (simp_all add: lit_def str_strip_def is_space_def splitlines_def str_rstrip_def
       is_linebreak_def)

lemma sample_extract:
  "extract_with_llm sample_pipe (lit ''A'') = Inr (JDict [(lit ''tin'', JStr (lit ''1''))])"
  "extract_with_llm sample_pipe (lit ''B'') = Inr (JDict [(lit ''tin'', JStr (lit ''2''))])"
proof -
  have "interpret_output (lit ''{\"tin\": \"1\"}'') = JDict [(lit ''tin'', JStr (lit ''1''))]"
    by (simp add: eval_json)
  then show "extract_with_llm sample_pipe (lit ''A'') = Inr (JDict [(lit ''tin'', JStr (lit ''1''))])"
    by (simp add: extract_with_llm_def sample_pipe_def)
  have "interpret_output (lit ''Here it is: {\"tin\": \"2\"}'') = JDict [(lit ''tin'', JStr (lit ''2''))]"
    by (simp add: eval_json)
  moreover have "lit ''B'' \<noteq> lit ''A''" by (simp add: lit_def)
  ultimately
  show "extract_with_llm sample_pipe (lit ''B'') = Inr (JDict [(lit ''tin'', JStr (lit ''2''))])"
    by (simp add: extract_with_llm_def sample_pipe_def make_prompt_inj)
qed

lemma sample_sheet:
  "ws_row1 sample_env sample_template = [CStr (lit ''Provider Name''), CStr (lit ''TIN'')]"
  "ws_row1 sample_env [] = [CNone]"
  "ws_append sample_env (ws_delete_rows sample_env sample_template 0) row = [sample_header, row]"
  by (simp_all add: sample_env_def sheet_row1_def sheet_max_column_def sheet_delete_rows_def
      sheet_append_def used_rows_def sample_template_def sample_header_def)

lemma sample_keys_in_order:
  "keys_in_order (ws_row1 sample_env sample_template) = sample_keys"
  unfolding sample_sheet
  by (simp add: keys_in_order_def sample_keys_def TEMPLATE_TO_KEY_def lit_def)

lemma provider_name_key: "lit ''provider_name'' \<in> set schema_keys"
  by (simp add: schema_keys_list) (simp add: TEMPLATE_TO_KEY_def lit_def)

lemma sample_build_row:
  "build_row sample_keys (normalize_record rp (JDict [(lit ''tin'', JStr (lit ''1''))]))
     = [sentinel, lit ''1'']"
  "build_row sample_keys (normalize_record rp (JDict [(lit ''tin'', JStr (lit ''2''))]))
     = [sentinel, lit ''2'']"
proof -
  have n: "lit ''provider_name'' \<noteq> lit ''tin''" by (simp add: lit_def)
  have s: "str_strip (lit ''1'') = lit ''1''" "str_strip (lit ''2'') = lit ''2''"
    "lit ''1'' \<noteq> []" "lit ''2'' \<noteq> []"
    by (simp_all add: str_strip_def lit_def is_space_def)
  show "build_row sample_keys (normalize_record rp (JDict [(lit ''tin'', JStr (lit ''1''))]))
     = [sentinel, lit ''1'']"
    using n s
    by (simp add: sample_keys_def normalize_record_apply provider_name_key tin_key
        record_get_def normalize_value_def)
  show "build_row sample_keys (normalize_record rp (JDict [(lit ''tin'', JStr (lit ''2''))]))
     = [sentinel, lit ''2'']"
    using n s
    by (simp add: sample_keys_def normalize_record_apply provider_name_key tin_key
        record_get_def normalize_value_def)
qed

lemma sample_rows:
  "email_row sample_env sample_pipe sample_keys a_eml = Inr [sentinel, lit ''1'']"
  "email_row sample_env sample_pipe sample_keys b_eml = Inr [sentinel, lit ''2'']"
  "email_row sample_env sample_pipe sample_keys c_eml = Inl FileNotFoundError"
  by (simp_all add: email_row_def sample_load sample_extract sample_build_row)

lemma sample_append:
  "files w template_xlsx = Some sample_template \<Longrightarrow>
     append_row_to_template sample_env template_xlsx out_xlsx row w
       = Inr (w\<lparr>files := (files w)(out_xlsx \<mapsto> [sample_header, row])\<rparr>)"
  by (simp add: append_row_to_template_def load_workbook_def save_def sample_sheet)

subsection \<open>Batches and the order of processing\<close>

lemma py_slice_take_drop:
  "0 \<le> b \<Longrightarrow> py_slice xs (int i) (int i + b) = take (nat b) (drop i xs)"
proof -
  assume b: "0 \<le> b"
  have n: "nat (int i + b) = i + nat b" using b by arith
  show ?thesis
  proof (cases "i < length xs")
    case True
    then have m: "min (length xs) (i + nat b) - i = min (length xs - i) (nat b)" by arith
    have "take (min (length (drop i xs)) (nat b)) (drop i xs) = take (nat b) (drop i xs)"
      by (simp add: min_def)
    with True b n m show ?thesis
      by (simp add: py_slice_def py_index_def Let_def)
  next
    case False
    with b n show ?thesis
      by (simp add: py_slice_def py_index_def Let_def)
  qed
qed

lemma concat_slices:
  "concat (map (\<lambda>j. take k (drop (j * k) xs)) [0..<m]) = take (m * k) xs"
proof (induction m)
  case 0
  then show ?case by simp
next
  case (Suc m)
  have "take (m * k) xs @ take k (drop (m * k) xs) = take (m * k + k) xs"
    by (simp add: take_add)
  with Suc show ?case by (simp add: add.commute)
qed

lemma ceil_div_covers: "0 < k \<Longrightarrow> (n::nat) \<le> ((n + k - 1) div k) * k"
proof -
  assume k: "0 < k"
  have "n + k - 1 = ((n + k - 1) div k) * k + (n + k - 1) mod k" by simp
  moreover have "(n + k - 1) mod k < k" using k by simp
  ultimately show ?thesis by linarith
qed

lemma batches_cover:
  assumes "0 < b" and "py_range0 (length xs) b = Inr starts"
  shows "concat (map (\<lambda>i. py_slice xs (int i) (int i + b)) starts) = xs"
proof -
  let ?k = "nat b"
  have k: "0 < ?k" using assms(1) by simp
  from assms have s: "starts = map (\<lambda>j. j * ?k) [0 ..< (length xs + ?k - 1) div ?k]"
    by (simp add: py_range0_def)
  have "concat (map (\<lambda>i. py_slice xs (int i) (int i + b)) starts)
      = concat (map (\<lambda>j. take ?k (drop (j * ?k) xs)) [0 ..< (length xs + ?k - 1) div ?k])"
    using assms(1) by (simp add: s py_slice_take_drop comp_def)
  also have "\<dots> = take (((length xs + ?k - 1) div ?k) * ?k) xs"
    by (rule concat_slices)
  also have "\<dots> = xs"
    using ceil_div_covers [OF k, of "length xs"] by simp
  finally show ?thesis .
qed

lemma processed_paths_append:
  "processed_paths (xs @ ys) = processed_paths xs @ processed_paths ys"
  by (induction xs rule: processed_paths.induct) auto

lemma processed_paths_map: "processed_paths (map Processed ps) = ps"
  by (induction ps) auto

lemma process_eml_files_stdout:
  assumes "process_eml_files env pipe ps t out w = (w', None)"
  shows "stdout w' = stdout w @ map Processed ps"
proof -
  from assms obtain wb where
    "process_loop env pipe (keys_in_order (ws_row1 env wb)) t out ps (save wb out w) = (w', None)"
    by (auto simp: process_eml_files_def Let_def split: sum.splits)
  from process_loop_stdout [OF this] show ?thesis by (simp add: save_def)
qed

lemma run_batches_processed:
  "run_batches env pipe args eml_paths starts w = (w', None) \<Longrightarrow>
     processed_paths (stdout w') =
       processed_paths (stdout w)
       @ concat (map (\<lambda>i. py_slice eml_paths (int i) (int i + arg_batch args)) starts)"
proof (induction starts arbitrary: w)
  case Nil
  then show ?case by simp
next
  case (Cons i starts)
  let ?batch = "py_slice eml_paths (int i) (int i + arg_batch args)"
  let ?w = "if arg_verbose args
            then print (ProcessingBatch (int i div arg_batch args + 1) (length ?batch)) w else w"
  obtain w1 r1 where p: "process_eml_files env pipe ?batch (arg_template args) (arg_output args) ?w
      = (w1, r1)"
    by (cases "process_eml_files env pipe ?batch (arg_template args) (arg_output args) ?w")
  with Cons.prems have r1: "r1 = None" and rest: "run_batches env pipe args eml_paths starts w1 = (w', None)"
    by (auto simp: Let_def split: option.splits)
  have "processed_paths (stdout ?w) = processed_paths (stdout w)"
    by (simp add: print_def processed_paths_append)
  with process_eml_files_stdout [OF p [unfolded r1]]
  have "processed_paths (stdout w1) = processed_paths (stdout w) @ ?batch"
    by (simp add: processed_paths_append processed_paths_map)
  with Cons.IH [OF rest] show ?case by simp
qed

lemma main_processed:
  assumes "main env (Inr pipe) args w = (w', None)" and "0 < arg_batch args"
    and "collect_eml_paths env (arg_eml_input args) = Inr eml_paths"
  shows "processed_paths (stdout w') = processed_paths (stdout w) @ eml_paths"
proof -
  let ?w = "print ModelLoaded (print LoadingModel
      (if arg_verbose args then print (Found (length eml_paths)) w else w))"
  from assms(2) obtain starts where st: "py_range0 (length eml_paths) (arg_batch args) = Inr starts"
    by (auto simp: py_range0_def)
  obtain w1 r1 where rb: "run_batches env pipe args eml_paths starts ?w = (w1, r1)"
    by (cases "run_batches env pipe args eml_paths starts ?w")
  with assms(1,3) st have r1: "r1 = None" and w': "w' = print (Done (arg_output args)) w1"
    by (auto simp: main_def Let_def split: option.splits)
  have "processed_paths (stdout ?w) = processed_paths (stdout w)"
    by (simp add: print_def processed_paths_append)
  with run_batches_processed [OF rb [unfolded r1]] batches_cover [OF assms(2) st]
  have "processed_paths (stdout w1) = processed_paths (stdout w) @ eml_paths" by simp
  with w' show ?thesis by (simp add: print_def processed_paths_append)
qed

subsection \<open>Runs of the program\<close>

lemma sample_process_from:
  assumes "files w template_xlsx = Some sample_template"
  shows
    "process_eml_files sample_env pipe [] template_xlsx out_xlsx w
       = (w\<lparr>files := (files w)(out_xlsx \<mapsto> sample_template)\<rparr>, None)"
    "process_eml_files sample_env sample_pipe [a_eml] template_xlsx out_xlsx w
       = (w\<lparr>files := (files w)(out_xlsx \<mapsto> [sample_header, [sentinel, lit ''1'']]),
            stdout := stdout w @ [Processed a_eml]\<rparr>, None)"
    "process_eml_files sample_env sample_pipe [b_eml] template_xlsx out_xlsx w
       = (w\<lparr>files := (files w)(out_xlsx \<mapsto> [sample_header, [sentinel, lit ''2'']]),
            stdout := stdout w @ [Processed b_eml]\<rparr>, None)"
    "process_eml_files sample_env sample_pipe [a_eml, b_eml] template_xlsx out_xlsx w
       = (w\<lparr>files := (files w)(out_xlsx \<mapsto> [sample_header, [sentinel, lit ''2'']]),
            stdout := stdout w @ [Processed a_eml, Processed b_eml]\<rparr>, None)"
    "process_eml_files sample_env sample_pipe [c_eml] template_xlsx out_xlsx w
       = (w\<lparr>files := (files w)(out_xlsx \<mapsto> sample_template)\<rparr>, Some FileNotFoundError)"
    "process_eml_files sample_env sample_pipe [c_eml, b_eml] template_xlsx out_xlsx w
       = (w\<lparr>files := (files w)(out_xlsx \<mapsto> sample_template)\<rparr>, Some FileNotFoundError)"
    "process_eml_files sample_env sample_pipe [a_eml, c_eml] template_xlsx out_xlsx w
       = (w\<lparr>files := (files w)(out_xlsx \<mapsto> [sample_header, [sentinel, lit ''1'']]),
            stdout := stdout w @ [Processed a_eml]\<rparr>, Some FileNotFoundError)"
    "process_eml_files sample_env sample_pipe [a_eml, c_eml, b_eml] template_xlsx out_xlsx w
       = (w\<lparr>files := (files w)(out_xlsx \<mapsto> [sample_header, [sentinel, lit ''1'']]),
            stdout := stdout w @ [Processed a_eml]\<rparr>, Some FileNotFoundError)"
  using assms
  by (simp_all add: process_eml_files_def load_workbook_def save_def
      sample_keys_in_order process_loop_Cons sample_rows sample_append sample_paths_distinct
      print_def del: process_loop.simps(2))



lemma sample_sort: "sort [b_eml, a_eml] = [a_eml, b_eml]" "sort [a_eml, b_eml] = [a_eml, b_eml]"
proof -
  have "a_eml < b_eml" by (simp add: a_eml_def b_eml_def lit_def)
  then have "\<not> b_eml \<le> a_eml" "a_eml \<le> b_eml" by (simp_all add: not_le)
  then show "sort [b_eml, a_eml] = [a_eml, b_eml]" "sort [a_eml, b_eml] = [a_eml, b_eml]"
    by simp_all
qed

lemma sample_collect: "collect_eml_paths sample_env inbox = Inr [a_eml, b_eml]"
  using sample_sort(1) by (simp add: collect_eml_paths_def sample_env_def del: sort_key_simps)

lemma sample_ranges:
  "py_range0 (Suc (Suc 0)) 1 = Inr [0, 1]" "py_range0 (Suc (Suc 0)) 2 = Inr [0]"
  "py_range0 (Suc (Suc 0)) 0 = Inl ValueError" "py_range0 (Suc (Suc 0)) (- 1) = Inr []"
  by (simp_all add: py_range0_def upt_rec)

lemma sample_slices:
  "py_slice [a_eml, b_eml] 0 1 = [a_eml]" "py_slice [a_eml, b_eml] 1 2 = [b_eml]"
  "py_slice [a_eml, b_eml] 0 2 = [a_eml, b_eml]"
  "py_slice [c_eml, b_eml] 0 1 = [c_eml]"
  by (simp_all add: py_slice_def py_index_def)


lemma sample_world_files:
  "files sample_world template_xlsx = Some sample_template"
  by (simp add: sample_world_def)

lemma sample_main:
  "main sample_env (Inr sample_pipe) (sample_args 1) sample_world
     = (\<lparr>files = [template_xlsx \<mapsto> sample_template,
                   out_xlsx \<mapsto> [sample_header, [sentinel, lit ''2'']]],
         stdout = [LoadingModel, ModelLoaded, Processed a_eml, Processed b_eml, Done out_xlsx]\<rparr>,
        None)"
  "main sample_env (Inr sample_pipe) (sample_args 2) sample_world
     = (\<lparr>files = [template_xlsx \<mapsto> sample_template,
                   out_xlsx \<mapsto> [sample_header, [sentinel, lit ''2'']]],
         stdout = [LoadingModel, ModelLoaded, Processed a_eml, Processed b_eml, Done out_xlsx]\<rparr>,
        None)"
  "main sample_env (Inr sample_pipe) (sample_args 0) sample_world
     = (\<lparr>files = [template_xlsx \<mapsto> sample_template], stdout = [LoadingModel, ModelLoaded]\<rparr>,
        Some ValueError)"
  "main sample_env (Inr sample_pipe) (sample_args (- 1)) sample_world
     = (\<lparr>files = [template_xlsx \<mapsto> sample_template],
         stdout = [LoadingModel, ModelLoaded, Done out_xlsx]\<rparr>, None)"
  by (simp_all add: main_def sample_args_def sample_collect sample_ranges sample_slices
      sample_process_from sample_paths_distinct print_def Let_def sample_world_def)

text \<open>
  C1. The claim is that after a run over n emails the workbook holds n data rows, one
  for each email and in their order, for every batch size. In the sample run the two
  emails are read, answered and reported as processed without an exception, and the
  saved workbook holds the header, moved to row 0, and one data row, that of the second
  email: each call of \<open>append_row_to_template\<close> loads the template again, not the
  workbook saved so far (\<open>process_loop_last_row\<close> shows it for every environment). The
  result is the same for the batch sizes 1 and 2; the batch size 0 ends the run with a
  \<open>ValueError\<close> and a negative one processes no email.
\<close>

theorem sample_run_keeps_last_row_only:
  "process_eml_files sample_env sample_pipe [a_eml, b_eml] template_xlsx out_xlsx sample_world
     = (\<lparr>files = [template_xlsx \<mapsto> sample_template,
                   out_xlsx \<mapsto> [sample_header, [sentinel, lit ''2'']]],
         stdout = [Processed a_eml, Processed b_eml]\<rparr>, None)
   \<and> main sample_env (Inr sample_pipe) (sample_args 1) sample_world
     = (\<lparr>files = [template_xlsx \<mapsto> sample_template,
                   out_xlsx \<mapsto> [sample_header, [sentinel, lit ''2'']]],
         stdout = [LoadingModel, ModelLoaded, Processed a_eml, Processed b_eml, Done out_xlsx]\<rparr>,
        None)
   \<and> main sample_env (Inr sample_pipe) (sample_args 2) sample_world
     = main sample_env (Inr sample_pipe) (sample_args 1) sample_world
   \<and> main sample_env (Inr sample_pipe) (sample_args 0) sample_world
     = (\<lparr>files = [template_xlsx \<mapsto> sample_template], stdout = [LoadingModel, ModelLoaded]\<rparr>,
        Some ValueError)
   \<and> main sample_env (Inr sample_pipe) (sample_args (- 1)) sample_world
     = (\<lparr>files = [template_xlsx \<mapsto> sample_template],
         stdout = [LoadingModel, ModelLoaded, Done out_xlsx]\<rparr>, None)"
proof -
  have "process_eml_files sample_env sample_pipe [a_eml, b_eml] template_xlsx out_xlsx sample_world
     = (\<lparr>files = [template_xlsx \<mapsto> sample_template,
                   out_xlsx \<mapsto> [sample_header, [sentinel, lit ''2'']]],
         stdout = [Processed a_eml, Processed b_eml]\<rparr>, None)"
    by (simp add: sample_process_from(4) [OF sample_world_files]) (simp add: sample_world_def)
  then show ?thesis
    by (simp only: sample_main simp_thms)
qed



















subsection \<open>The order of the emails\<close>

text \<open>
  What \<open>main\<close> collects from the input path: the matched paths of a folder, sorted, so
  that the result depends on which paths the folder lists and not on the order in which it
  lists them; a path that is not a folder is taken when it is a file whose suffix is
  \<open>.eml\<close> in whatever case, and refused with \<open>SystemExit\<close> otherwise.
\<close>

lemma sort_mset_eq: "mset xs = mset ys \<Longrightarrow> sort xs = sort ys"
  by (rule properties_for_sort) simp_all

lemma collect_dir:
  "is_dir env inp \<Longrightarrow> glob_eml env inp \<noteq> [] \<Longrightarrow>
     collect_eml_paths env inp = Inr (sort (glob_eml env inp))"
proof -
  assume d: "is_dir env inp" and g: "glob_eml env inp \<noteq> []"
  from g have "mset (sort (glob_eml env inp)) \<noteq> {#}" by simp
  then have "sort (glob_eml env inp) \<noteq> []" by (metis mset.simps(1))
  with d show ?thesis by (simp add: collect_eml_paths_def)
qed

lemma collect_dir_order:
  assumes "is_dir env inp" "is_dir env' inp" "mset (glob_eml env inp) = mset (glob_eml env' inp)"
  shows "collect_eml_paths env inp = collect_eml_paths env' inp"
  using assms sort_mset_eq [OF assms(3)] by (simp add: collect_eml_paths_def)

lemma collect_dir_result:
  "is_dir env inp \<Longrightarrow> collect_eml_paths env inp = Inr eml_paths \<Longrightarrow>
     eml_paths = sort (glob_eml env inp)"
  by (auto simp: collect_eml_paths_def Let_def split: if_splits)

lemma collect_file:
  "\<not> is_dir env inp \<Longrightarrow>
     (collect_eml_paths env inp = Inr [inp])
       = (is_file env inp \<and> str_lower (unicode_lower env) (path_suffix inp) = lit ''.eml'')"
  by (simp add: collect_eml_paths_def)

lemma collect_reject:
  "\<not> is_dir env inp \<Longrightarrow>
   \<not> (is_file env inp \<and> str_lower (unicode_lower env) (path_suffix inp) = lit ''.eml'') \<Longrightarrow>
     \<exists>msg. collect_eml_paths env inp = Inl (SystemExit msg)"
  by (simp add: collect_eml_paths_def)

lemma main_processed_sorted:
  assumes "main env (Inr pipe) args w = (w', None)" and "0 < arg_batch args"
    and "is_dir env (arg_eml_input args)"
  shows "processed_paths (stdout w')
           = processed_paths (stdout w) @ sort (glob_eml env (arg_eml_input args))"
proof -
  from assms(1) obtain eml_paths where c: "collect_eml_paths env (arg_eml_input args) = Inr eml_paths"
    by (cases "collect_eml_paths env (arg_eml_input args)") (auto simp: main_def)
  from main_processed [OF assms(1,2) c] collect_dir_result [OF assms(3) c]
  show ?thesis by simp
qed

lemma suffix_examples:
  "str_lower ul (path_suffix [lit ''inbox'', lit ''Mail.EML'']) = lit ''.eml''"
  "str_lower ul (path_suffix [lit ''inbox'', lit ''mail.txt'']) \<noteq> lit ''.eml''"
  "path_suffix [lit ''inbox'', lit ''.eml''] = []"
  "str_lower ul (path_suffix a_eml) = lit ''.eml''"
  "path_suffix template_xlsx = lit ''.xlsx''"
  by (simp_all add: path_suffix_def path_name_def str_rfind_def py_slice_def py_index_def
      str_lower_def lit_def Let_def a_eml_def template_xlsx_def)

text \<open>
  The emails are processed in the order of that list. Whatever the batch size and however
  the run ends, the lines \<open>Processed\<close> it prints name an initial part of the list, in
  order; a run with a positive batch size that ends without an exception names all of it.
\<close>

lemma process_loop_stdout_prefix:
  "\<exists>qs. prefix qs ps
      \<and> stdout (fst (process_loop env pipe keys t out ps w)) = stdout w @ map Processed qs"
proof (induction ps arbitrary: w)
  case Nil
  then show ?case by simp
next
  case (Cons p ps)
  show ?case
  proof (cases "email_row env pipe keys p")
    case (Inl e)
    then have "stdout (fst (process_loop env pipe keys t out (p # ps) w))
        = stdout w @ map Processed []"
      by (simp add: process_loop_Cons del: process_loop.simps(2))
    then show ?thesis by (metis Nil_prefix)
  next
    case (Inr row)
    show ?thesis
    proof (cases "append_row_to_template env t out row w")
      case (Inl e)
      with Inr have "stdout (fst (process_loop env pipe keys t out (p # ps) w))
          = stdout w @ map Processed []"
        by (simp add: process_loop_Cons del: process_loop.simps(2))
      then show ?thesis by (metis Nil_prefix)
    next
      case ap: (Inr w2)
      from Cons.IH [of "print (Processed p) w2"] obtain qs where qs: "prefix qs ps"
        and st: "stdout (fst (process_loop env pipe keys t out ps (print (Processed p) w2)))
           = stdout (print (Processed p) w2) @ map Processed qs"
        by blast
      from append_row_files [OF ap] have "stdout w2 = stdout w" by blast
      with st Inr ap have "stdout (fst (process_loop env pipe keys t out (p # ps) w))
          = stdout w @ map Processed (p # qs)"
        by (simp add: process_loop_Cons print_def del: process_loop.simps(2))
      moreover from qs have "prefix (p # qs) (p # ps)" by simp
      ultimately show ?thesis by blast
    qed
  qed
qed

lemma process_eml_files_stdout_prefix:
  "\<exists>qs. prefix qs ps
      \<and> stdout (fst (process_eml_files env pipe ps t out w)) = stdout w @ map Processed qs"
proof (cases "load_workbook w t")
  case (Inl e)
  then have "stdout (fst (process_eml_files env pipe ps t out w)) = stdout w @ map Processed []"
    by (simp add: process_eml_files_def)
  then show ?thesis by (metis Nil_prefix)
next
  case (Inr wb)
  from process_loop_stdout_prefix
    [of ps env pipe "keys_in_order (ws_row1 env wb)" t out "save wb out w"]
  show ?thesis using Inr by (simp add: process_eml_files_def Let_def save_def)
qed

lemma run_batches_processed_prefix:
  "\<exists>qs. prefix qs (concat (map (\<lambda>i. py_slice eml_paths (int i) (int i + arg_batch args)) starts))
      \<and> processed_paths (stdout (fst (run_batches env pipe args eml_paths starts w)))
          = processed_paths (stdout w) @ qs"
proof (induction starts arbitrary: w)
  case Nil
  show ?case by simp
next
  case (Cons i starts)
  let ?batch = "py_slice eml_paths (int i) (int i + arg_batch args)"
  let ?rest = "concat (map (\<lambda>i. py_slice eml_paths (int i) (int i + arg_batch args)) starts)"
  let ?w = "if arg_verbose args
            then print (ProcessingBatch (int i div arg_batch args + 1) (length ?batch)) w else w"
  have pw: "processed_paths (stdout ?w) = processed_paths (stdout w)"
    by (simp add: print_def processed_paths_append)
  obtain w1 r1 where pe:
    "process_eml_files env pipe ?batch (arg_template args) (arg_output args) ?w = (w1, r1)"
    by (cases "process_eml_files env pipe ?batch (arg_template args) (arg_output args) ?w")
  from process_eml_files_stdout_prefix
    [of ?batch env pipe "arg_template args" "arg_output args" ?w] pe
  obtain qs where qs: "prefix qs ?batch" and st: "stdout w1 = stdout ?w @ map Processed qs"
    by auto
  from st pw have p1: "processed_paths (stdout w1) = processed_paths (stdout w) @ qs"
    by (simp add: processed_paths_append processed_paths_map)
  show ?case
  proof (cases r1)
    case (Some e)
    with pe have "run_batches env pipe args eml_paths (i # starts) w = (w1, Some e)"
      by (simp add: Let_def)
    with p1 have "processed_paths (stdout (fst (run_batches env pipe args eml_paths (i # starts) w)))
        = processed_paths (stdout w) @ qs"
      by simp
    moreover from qs have "prefix qs (?batch @ ?rest)" by (rule prefix_prefix)
    ultimately show ?thesis by auto
  next
    case None
    from process_eml_files_stdout [of env pipe ?batch "arg_template args" "arg_output args" ?w w1]
      pe None
    have full: "stdout w1 = stdout ?w @ map Processed ?batch" by simp
    with pw have p2: "processed_paths (stdout w1) = processed_paths (stdout w) @ ?batch"
      by (simp add: processed_paths_append processed_paths_map)
    from Cons.IH [of w1] obtain rs where rs: "prefix rs ?rest"
      and r: "processed_paths (stdout (fst (run_batches env pipe args eml_paths starts w1)))
            = processed_paths (stdout w1) @ rs"
      by blast
    from pe None have "run_batches env pipe args eml_paths (i # starts) w
        = run_batches env pipe args eml_paths starts w1"
      by (simp add: Let_def)
    with r p2 have "processed_paths (stdout (fst (run_batches env pipe args eml_paths (i # starts) w)))
        = processed_paths (stdout w) @ (?batch @ rs)"
      by simp
    moreover from rs have "prefix (?batch @ rs) (?batch @ ?rest)" by simp
    ultimately show ?thesis by auto
  qed
qed

lemma batches_prefix:
  assumes "py_range0 (length xs) b = Inr starts"
  shows "prefix (concat (map (\<lambda>i. py_slice xs (int i) (int i + b)) starts)) xs"
proof (cases "0 < b")
  case True
  from batches_cover [OF True assms] show ?thesis by simp
next
  case False
  with assms have "starts = []" by (auto simp: py_range0_def split: if_splits)
  then show ?thesis by simp
qed

lemma main_processed_prefix:
  assumes "collect_eml_paths env (arg_eml_input args) = Inr eml_paths"
  shows "\<exists>qs. prefix qs eml_paths
      \<and> processed_paths (stdout (fst (main env llm args w))) = processed_paths (stdout w) @ qs"
proof -
  let ?w0 = "print LoadingModel
      (if arg_verbose args then print (Found (length eml_paths)) w else w)"
  let ?w = "print ModelLoaded ?w0"
  have p0: "processed_paths (stdout ?w0) = processed_paths (stdout w)"
    and pw: "processed_paths (stdout ?w) = processed_paths (stdout w)"
    by (simp_all add: print_def processed_paths_append)
  have nil: "processed_paths (stdout (fst (main env llm args w))) = processed_paths (stdout w) @ []
      \<Longrightarrow> ?thesis"
    by (metis Nil_prefix)
  show ?thesis
  proof (cases llm)
    case (Inl e)
    with assms show ?thesis
      by (intro nil) (simp add: main_def Let_def print_def processed_paths_append)
  next
    case pipe: (Inr pipe)
    show ?thesis
    proof (cases "py_range0 (length eml_paths) (arg_batch args)")
      case (Inl e)
      with assms pipe show ?thesis
        by (intro nil) (simp add: main_def Let_def print_def processed_paths_append)
    next
      case (Inr starts)
      from run_batches_processed_prefix [of eml_paths args starts env pipe ?w] pw
      obtain qs where
        qs: "prefix qs (concat (map (\<lambda>i. py_slice eml_paths (int i) (int i + arg_batch args)) starts))"
        and r: "processed_paths (stdout (fst (run_batches env pipe args eml_paths starts ?w)))
            = processed_paths (stdout w) @ qs"
        by auto
      from qs batches_prefix [OF Inr] have "prefix qs eml_paths" by (rule prefix_order.trans)
      moreover have "processed_paths (stdout (fst (main env llm args w)))
          = processed_paths (stdout (fst (run_batches env pipe args eml_paths starts ?w)))"
        using assms pipe Inr
        by (cases "run_batches env pipe args eml_paths starts ?w")
           (auto simp: main_def Let_def print_def processed_paths_append split: option.splits)
      ultimately show ?thesis using r by auto
    qed
  qed
qed

lemma main_processed_prefix_sorted:
  assumes "is_dir env (arg_eml_input args)"
  shows "\<exists>qs. prefix qs (sort (glob_eml env (arg_eml_input args)))
      \<and> processed_paths (stdout (fst (main env llm args w))) = processed_paths (stdout w) @ qs"
proof (cases "collect_eml_paths env (arg_eml_input args)")
  case (Inl e)
  then have "processed_paths (stdout (fst (main env llm args w))) = processed_paths (stdout w) @ []"
    by (simp add: main_def)
  then show ?thesis by (metis Nil_prefix)
next
  case (Inr eml_paths)
  from main_processed_prefix [OF Inr] collect_dir_result [OF assms Inr] show ?thesis by simp
qed

text \<open>
  C10. The claim is that the emails of a folder are processed, and hence their output rows
  ordered, in the sorted order of the matched paths, whatever the order in which the folder
  lists them. In the sample run the folder lists \<open>b.eml\<close> before \<open>a.eml\<close>; the paths
  are collected as \<open>a.eml\<close>, \<open>b.eml\<close>, as they are when the folder lists them the other
  way round, and the run ends without an exception after processing them in that order.
  The rows do not follow: a run over \<open>a.eml\<close> alone saves the row \<open>1\<close> and a run over
  \<open>b.eml\<close> alone the row \<open>2\<close>, and the run over the folder saves the header and the
  row \<open>2\<close> only, for the batch sizes 1 and 2. The row of \<open>a.eml\<close> is lost because every
  call of \<open>append_row_to_template\<close> loads the template again, not the workbook saved so
  far, so the saved rows are not the rows of the emails in any order.
\<close>

theorem sorted_run_output_misses_first_email:
  "glob_eml sample_env inbox = [b_eml, a_eml]
   \<and> collect_eml_paths sample_env inbox = Inr [a_eml, b_eml]
   \<and> collect_eml_paths (sample_env\<lparr>glob_eml := \<lambda>p. [a_eml, b_eml]\<rparr>) inbox
       = Inr [a_eml, b_eml]
   \<and> snd (main sample_env (Inr sample_pipe) (sample_args 1) sample_world) = None
   \<and> processed_paths
         (stdout (fst (main sample_env (Inr sample_pipe) (sample_args 1) sample_world)))
       = [a_eml, b_eml]
   \<and> files (fst (process_eml_files sample_env sample_pipe [a_eml] template_xlsx out_xlsx
         sample_world)) out_xlsx
       = Some [sample_header, [sentinel, lit ''1'']]
   \<and> files (fst (process_eml_files sample_env sample_pipe [b_eml] template_xlsx out_xlsx
         sample_world)) out_xlsx
       = Some [sample_header, [sentinel, lit ''2'']]
   \<and> files (fst (main sample_env (Inr sample_pipe) (sample_args 1) sample_world)) out_xlsx
       = Some [sample_header, [sentinel, lit ''2'']]
   \<and> files (fst (main sample_env (Inr sample_pipe) (sample_args 2) sample_world)) out_xlsx
       = Some [sample_header, [sentinel, lit ''2'']]"
proof -
  have g: "glob_eml sample_env inbox = [b_eml, a_eml]"
    by (simp add: sample_env_def)
  have c: "collect_eml_paths (sample_env\<lparr>glob_eml := \<lambda>p. [a_eml, b_eml]\<rparr>) inbox
      = Inr [a_eml, b_eml]"
    using sample_sort(2)
    by (simp add: collect_eml_paths_def sample_env_def del: sort_key_simps)
  have r: "files (fst (process_eml_files sample_env sample_pipe [a_eml] template_xlsx out_xlsx
        sample_world)) out_xlsx = Some [sample_header, [sentinel, lit ''1'']]"
    "files (fst (process_eml_files sample_env sample_pipe [b_eml] template_xlsx out_xlsx
        sample_world)) out_xlsx = Some [sample_header, [sentinel, lit ''2'']]"
    by (simp_all add: sample_process_from(2,3) [OF sample_world_files])
  have m: "snd (main sample_env (Inr sample_pipe) (sample_args 1) sample_world) = None"
    "processed_paths
         (stdout (fst (main sample_env (Inr sample_pipe) (sample_args 1) sample_world)))
       = [a_eml, b_eml]"
    "files (fst (main sample_env (Inr sample_pipe) (sample_args 1) sample_world)) out_xlsx
       = Some [sample_header, [sentinel, lit ''2'']]"
    "files (fst (main sample_env (Inr sample_pipe) (sample_args 2) sample_world)) out_xlsx
       = Some [sample_header, [sentinel, lit ''2'']]"
    by (simp_all add: sample_main(1,2))
  from g sample_collect c m r show ?thesis by blast
qed

end
